theory Spec2Isabelle
  imports Main "HOL-Library.AList" "HOL-Library.Sublist"
begin

section \<open>Python values, exceptions and the world the gateway runs in\<close>

text \<open>
  The repository is Python. The values that flow through the storage adapter
  (\<open>src/src/storage.py\<close>) and the gateway (\<open>src/src/adapter.py\<close>) are the values
  of the \<open>json\<close> module: \<open>None\<close>, booleans, integers, strings, lists and
  dictionaries with string keys. A dictionary is an association list in insertion
  order, as a Python \<open>dict\<close> is. Floats do not occur in the code under study and
  are left out. A Python \<open>str\<close> is a \<open>string\<close>, one \<open>char\<close> per code point
  below 256.
\<close>

datatype json =
    JNull
  | JBool bool
  | JInt int
  | JStr string
  | JList "json list"
  | JObj "(string \<times> json) list"

text \<open>The exception classes that the modelled code can meet.\<close>

datatype py_error =
    JSONDecodeError
  | TypeError
  | AttributeError
  | ValueError
  | RecursionError
  | GCSError
  | NotFound
  | OSError
  | AgentError

datatype log_level = WARNING | ERROR

type_synonym path = "string list"

text \<open>
  The world: the objects of the GCS bucket (name and content), the outcome of the
  next calls to the GCS API (\<open>True\<close>: the call raises; an exhausted list: no more
  failures), the clock and the UUID generator as counters, the warnings and errors
  logged so far, the regular files and the directories of the local file system,
  and the messages posted to the Telegram API.
\<close>

record world =
  blobs :: "(string \<times> string) list"
  faults :: "bool list"
  clock :: nat
  uuid_count :: nat
  log :: "(log_level \<times> string) list"
  files :: "(path \<times> string) list"
  dirs :: "path list"
  outbox :: "(string \<times> string) list"

text \<open>
  The library functions and external collaborators the code calls:
  \<open>json.dumps(v)\<close>, \<open>json.dumps(v, indent=2)\<close>, \<open>json.loads(s)\<close>, the builtin
  \<open>str\<close> on a value and on an exception, \<open>datetime.utcnow().isoformat()\<close> and
  \<open>str(uuid.uuid4())\<close> as functions of the counters of the world, and the name
  of the bucket.
\<close>

record env =
  json_dumps :: "json \<Rightarrow> py_error + string"
  json_dumps_indent :: "json \<Rightarrow> py_error + string"
  json_loads :: "string \<Rightarrow> py_error + json"
  py_str :: "json \<Rightarrow> string"
  exc_str :: "py_error \<Rightarrow> string"
  isoformat :: "nat \<Rightarrow> string"
  uuid4 :: "nat \<Rightarrow> string"
  bucket_name :: string

subsection \<open>Computations that may raise\<close>

type_synonym 'a io = "world \<Rightarrow> (py_error + 'a) \<times> world"

definition io_return :: "'a \<Rightarrow> 'a io" where
  "io_return x = (\<lambda>w. (Inr x, w))"

definition io_raise :: "py_error \<Rightarrow> 'a io" where
  "io_raise e = (\<lambda>w. (Inl e, w))"

definition io_lift :: "py_error + 'a \<Rightarrow> 'a io" where
  "io_lift r = (\<lambda>w. (r, w))"

definition io_bind :: "'a io \<Rightarrow> ('a \<Rightarrow> 'b io) \<Rightarrow> 'b io" where
  "io_bind m f = (\<lambda>w. case m w of
       (Inl e, w') \<Rightarrow> (Inl e, w')
     | (Inr x, w') \<Rightarrow> f x w')"

text \<open>\<open>try: m except Exception as e: h e\<close>\<close>

definition try_except :: "'a io \<Rightarrow> (py_error \<Rightarrow> 'a io) \<Rightarrow> 'a io" where
  "try_except m h = (\<lambda>w. case m w of
       (Inl e, w') \<Rightarrow> h e w'
     | (Inr x, w') \<Rightarrow> (Inr x, w'))"

definition logger :: "log_level \<Rightarrow> string \<Rightarrow> unit io" where
  "logger lvl msg = (\<lambda>w. (Inr (), w\<lparr>log := log w @ [(lvl, msg)]\<rparr>))"

definition utcnow_isoformat :: "env \<Rightarrow> string io" where
  "utcnow_isoformat E = (\<lambda>w. (Inr (isoformat E (clock w)), w\<lparr>clock := Suc (clock w)\<rparr>))"

definition uuid4_str :: "env \<Rightarrow> string io" where
  "uuid4_str E = (\<lambda>w. (Inr (uuid4 E (uuid_count w)), w\<lparr>uuid_count := Suc (uuid_count w)\<rparr>))"

subsection \<open>Python builtins on values\<close>

text \<open>Truth value of an object, as \<open>if v:\<close> tests it.\<close>

fun truthy :: "json \<Rightarrow> bool" where
  "truthy JNull = False"
| "truthy (JBool b) = b"
| "truthy (JInt i) = (i \<noteq> 0)"
| "truthy (JStr s) = (s \<noteq> [])"
| "truthy (JList xs) = (xs \<noteq> [])"
| "truthy (JObj d) = (d \<noteq> [])"

text \<open>\<open>v.get(k, default)\<close>: only a dictionary has the method.\<close>

fun py_get :: "json \<Rightarrow> string \<Rightarrow> json \<Rightarrow> py_error + json" where
  "py_get (JObj d) k dflt = Inr (case map_of d k of None \<Rightarrow> dflt | Some v \<Rightarrow> v)"
| "py_get _ k dflt = Inl AttributeError"

text \<open>\<open>v[k] = x\<close> with a string key: only a dictionary accepts it.\<close>

fun py_setitem :: "json \<Rightarrow> string \<Rightarrow> json \<Rightarrow> py_error + json" where
  "py_setitem (JObj d) k x = Inr (JObj (AList.update k x d))"
| "py_setitem _ k x = Inl TypeError"

text \<open>\<open>{**a, **b}\<close>: the items of \<open>b\<close> are stored one after the other over \<open>a\<close>.\<close>

definition dict_merge :: "(string \<times> json) list \<Rightarrow> (string \<times> json) list \<Rightarrow> (string \<times> json) list" where
  "dict_merge a b = fold (\<lambda>(k, v). AList.update k v) b a"

fun py_unpack :: "json \<Rightarrow> py_error + (string \<times> json) list" where
  "py_unpack (JObj d) = Inr d"
| "py_unpack _ = Inl TypeError"

text \<open>\<open>str.isspace\<close> on a code point below 256.\<close>

definition is_space :: "char \<Rightarrow> bool" where
  "is_space c = (c \<in> set [CHR 0x09, CHR 0x0A, CHR 0x0B, CHR 0x0C, CHR 0x0D,
     CHR 0x1C, CHR 0x1D, CHR 0x1E, CHR 0x1F, CHR 0x20, CHR 0x85, CHR 0xA0])"

text \<open>\<open>s.strip()\<close>\<close>

definition strip :: "string \<Rightarrow> string" where
  "strip s = rev (dropWhile is_space (rev (dropWhile is_space s)))"

text \<open>\<open>s.split(sep)\<close> for a separator of one character: never an empty list.\<close>

fun split_on :: "char \<Rightarrow> string \<Rightarrow> string list" where
  "split_on sep [] = [[]]"
| "split_on sep (c # cs) =
     (if c = sep then [] # split_on sep cs
      else (case split_on sep cs of
              [] \<Rightarrow> [[c]]
            | l # ls \<Rightarrow> (c # l) # ls))"

text \<open>\<open>s.replace(":", "_")\<close>\<close>

definition replace_colon :: "string \<Rightarrow> string" where
  "replace_colon s = map (\<lambda>c. if c = CHR '':'' then CHR ''_'' else c) s"

text \<open>
  \<open>xs[-limit:]\<close> for a limit that is not zero: the last \<open>limit\<close> items when the
  limit is positive, everything but the first \<open>-limit\<close> items when it is negative.
\<close>

definition slice_from_neg :: "'a list \<Rightarrow> int \<Rightarrow> 'a list" where
  "slice_from_neg xs limit =
     (if 0 < limit then drop (length xs - nat limit) xs else drop (nat (- limit)) xs)"

subsection \<open>The GCS client\<close>

text \<open>
  Every call to the GCS API takes the next outcome from \<open>faults\<close>. Making a blob
  handle (\<open>bucket.blob(name)\<close>) is no call.
\<close>

definition gcs_call :: "unit io" where
  "gcs_call = (\<lambda>w.
     (if faults w \<noteq> [] \<and> hd (faults w) then Inl GCSError else Inr (),
      w\<lparr>faults := tl (faults w)\<rparr>))"

definition blob_exists :: "string \<Rightarrow> bool io" where
  "blob_exists name = io_bind gcs_call (\<lambda>_ w. (Inr (map_of (blobs w) name \<noteq> None), w))"

definition blob_download :: "string \<Rightarrow> string io" where
  "blob_download name = io_bind gcs_call (\<lambda>_ w.
     (case map_of (blobs w) name of None \<Rightarrow> Inl NotFound | Some c \<Rightarrow> Inr c, w))"

definition blob_upload :: "string \<Rightarrow> string \<Rightarrow> unit io" where
  "blob_upload name content = io_bind gcs_call (\<lambda>_ w.
     (Inr (), w\<lparr>blobs := AList.update name content (blobs w)\<rparr>))"

section \<open>The storage adapter (\<open>GCSFileStorage\<close>)\<close>

definition get_session_path :: "string \<Rightarrow> string" where
  "get_session_path session_key = ''sessions/'' @ replace_colon session_key"

definition newline :: char where
  "newline = CHR 0x0A"

subsection \<open>Session records\<close>

definition get_session :: "env \<Rightarrow> string \<Rightarrow> json io" where
  "get_session E session_key =
     try_except
       (let session_path = get_session_path session_key @ ''/session.json'' in
        io_bind (blob_exists session_path) (\<lambda>ex.
        if \<not> ex then io_return JNull
        else
          io_bind (blob_download session_path) (\<lambda>content.
          io_lift (json_loads E content))))
       (\<lambda>e. io_bind (logger ERROR ''Error getting session'') (\<lambda>_. io_return JNull))"

definition create_or_update_session ::
  "env \<Rightarrow> string \<Rightarrow> string \<Rightarrow> (string \<times> json) list option \<Rightarrow> json io" where
  "create_or_update_session E session_key user_id metadata =
     try_except
       (io_bind (get_session E session_key) (\<lambda>session.
        io_bind (utcnow_isoformat E) (\<lambda>now.
        io_bind
          (if truthy session
           then
             io_bind (io_lift (py_setitem session ''updated_at'' (JStr now))) (\<lambda>s1.
             io_bind (io_lift (py_setitem s1 ''user_id'' (JStr user_id))) (\<lambda>s2.
             (case metadata of
                None \<Rightarrow> io_return s2
              | Some m \<Rightarrow>
                  if m \<noteq> []
                  then
                    io_bind (io_lift (py_get s2 ''metadata'' (JObj []))) (\<lambda>old.
                    io_bind (io_lift (py_unpack old)) (\<lambda>old_items.
                    io_lift (py_setitem s2 ''metadata'' (JObj (dict_merge old_items m)))))
                  else io_return s2)))
           else
             io_return (JObj
               [(''session_key'', JStr session_key),
                (''user_id'', JStr user_id),
                (''created_at'', JStr now),
                (''updated_at'', JStr now),
                (''metadata'', JObj (case metadata of None \<Rightarrow> [] | Some m \<Rightarrow> m))]))
          (\<lambda>session'.
        let session_path = get_session_path session_key @ ''/session.json'' in
        io_bind (io_lift (json_dumps_indent E session')) (\<lambda>text.
        io_bind (blob_upload session_path text) (\<lambda>_.
        io_return session'))))))
       (\<lambda>e. io_bind (logger ERROR ''Error creating/updating session'') (\<lambda>_. io_raise e))"

subsection \<open>Chat history\<close>

definition message_doc :: "string \<Rightarrow> string \<Rightarrow> json \<Rightarrow> string \<Rightarrow> (string \<times> json) list option \<Rightarrow> json" where
  "message_doc message_id role content now metadata = JObj
     [(''message_id'', JStr message_id),
      (''role'', JStr role),
      (''content'', content),
      (''timestamp'', JStr now),
      (''metadata'', JObj (case metadata of None \<Rightarrow> [] | Some m \<Rightarrow> m))]"

text \<open>The body of the \<open>try\<close> block of \<open>save_chat_message\<close>.\<close>

definition save_chat_message_try ::
  "env \<Rightarrow> string \<Rightarrow> string \<Rightarrow> string \<Rightarrow> json \<Rightarrow> (string \<times> json) list option \<Rightarrow> unit io" where
  "save_chat_message_try E session_key message_id role content metadata =
     (let chat_history_path = get_session_path session_key @ ''/chat_history.jsonl'' in
      io_bind (utcnow_isoformat E) (\<lambda>now.
      io_bind (io_lift (json_dumps E (message_doc message_id role content now metadata))) (\<lambda>dumped.
      let message_line = dumped @ [newline] in
      io_bind (blob_exists chat_history_path) (\<lambda>ex.
      io_bind (if ex
               then io_bind (blob_download chat_history_path) (\<lambda>existing_content.
                      io_return (existing_content @ message_line))
               else io_return message_line) (\<lambda>new_content.
      blob_upload chat_history_path new_content)))))"

definition save_chat_message ::
  "env \<Rightarrow> string \<Rightarrow> string \<Rightarrow> string \<Rightarrow> json \<Rightarrow> (string \<times> json) list option \<Rightarrow> unit io" where
  "save_chat_message E session_key message_id role content metadata =
     try_except
       (save_chat_message_try E session_key message_id role content metadata)
       (\<lambda>e. logger ERROR ''Error saving chat message'')"

text \<open>The loop over the lines of the blob; only \<open>json.JSONDecodeError\<close> is caught in it.\<close>

fun parse_chat_lines :: "env \<Rightarrow> string list \<Rightarrow> json list \<Rightarrow> json list io" where
  "parse_chat_lines E [] messages = io_return messages"
| "parse_chat_lines E (line # rest) messages =
     (if strip line \<noteq> []
      then (case json_loads E line of
              Inr v \<Rightarrow> parse_chat_lines E rest (messages @ [v])
            | Inl e \<Rightarrow>
                (if e = JSONDecodeError
                 then io_bind (logger WARNING ''Failed to parse chat history line'')
                        (\<lambda>_. parse_chat_lines E rest messages)
                 else io_raise e))
      else parse_chat_lines E rest messages)"

definition get_chat_history :: "env \<Rightarrow> string \<Rightarrow> int option \<Rightarrow> json list io" where
  "get_chat_history E session_key limit =
     try_except
       (let chat_history_path = get_session_path session_key @ ''/chat_history.jsonl'' in
        io_bind (blob_exists chat_history_path) (\<lambda>ex.
        if \<not> ex then io_return []
        else
          io_bind (blob_download chat_history_path) (\<lambda>content.
          io_bind (parse_chat_lines E (split_on newline (strip content)) []) (\<lambda>messages.
          (case limit of
             None \<Rightarrow> io_return messages
           | Some l \<Rightarrow> if l \<noteq> 0 then io_return (slice_from_neg messages l)
                      else io_return messages)))))
       (\<lambda>e. io_bind (logger ERROR ''Error getting chat history'') (\<lambda>_. io_return []))"

subsection \<open>Agent actions\<close>

definition action_doc :: "string \<Rightarrow> string \<Rightarrow> json \<Rightarrow> string \<Rightarrow> (string \<times> json) list option \<Rightarrow> json" where
  "action_doc action_id action_type action_data now metadata = JObj
     [(''action_id'', JStr action_id),
      (''action_type'', JStr action_type),
      (''action_data'', action_data),
      (''timestamp'', JStr now),
      (''metadata'', JObj (case metadata of None \<Rightarrow> [] | Some m \<Rightarrow> m))]"

text \<open>The body of the \<open>try\<close> block of \<open>save_agent_action\<close>.\<close>

definition save_agent_action_try ::
  "env \<Rightarrow> string \<Rightarrow> string \<Rightarrow> json \<Rightarrow> (string \<times> json) list option \<Rightarrow> string io" where
  "save_agent_action_try E session_key action_type action_data metadata =
     io_bind (uuid4_str E) (\<lambda>action_id.
     let actions_path = get_session_path session_key @ ''/agent_actions.jsonl'' in
     io_bind (utcnow_isoformat E) (\<lambda>now.
     io_bind (io_lift (json_dumps E (action_doc action_id action_type action_data now metadata))) (\<lambda>dumped.
     let action_line = dumped @ [newline] in
     io_bind (blob_exists actions_path) (\<lambda>ex.
     io_bind (if ex
              then io_bind (blob_download actions_path) (\<lambda>existing_content.
                     io_return (existing_content @ action_line))
              else io_return action_line) (\<lambda>new_content.
     io_bind (blob_upload actions_path new_content) (\<lambda>_.
     io_return action_id))))))"

definition save_agent_action ::
  "env \<Rightarrow> string \<Rightarrow> string \<Rightarrow> json \<Rightarrow> (string \<times> json) list option \<Rightarrow> string io" where
  "save_agent_action E session_key action_type action_data metadata =
     try_except
       (save_agent_action_try E session_key action_type action_data metadata)
       (\<lambda>e. io_bind (logger ERROR ''Error saving agent action'') (\<lambda>_. io_return []))"

text \<open>
  The loop of \<open>get_agent_actions\<close>. With a filter, \<open>action.get("action_type")\<close>
  is called on whatever the line parsed to, and raises on anything but a dictionary.
\<close>

fun parse_action_lines :: "env \<Rightarrow> string option \<Rightarrow> string list \<Rightarrow> json list \<Rightarrow> json list io" where
  "parse_action_lines E action_type [] actions = io_return actions"
| "parse_action_lines E action_type (line # rest) actions =
     (if strip line \<noteq> []
      then (case json_loads E line of
              Inr action \<Rightarrow>
                (case action_type of
                   None \<Rightarrow> parse_action_lines E action_type rest (actions @ [action])
                 | Some t \<Rightarrow>
                     (case py_get action ''action_type'' JNull of
                        Inl e \<Rightarrow> io_raise e
                      | Inr a \<Rightarrow>
                          if a = JStr t
                          then parse_action_lines E action_type rest (actions @ [action])
                          else parse_action_lines E action_type rest actions))
            | Inl e \<Rightarrow>
                (if e = JSONDecodeError
                 then io_bind (logger WARNING ''Failed to parse agent action line'')
                        (\<lambda>_. parse_action_lines E action_type rest actions)
                 else io_raise e))
      else parse_action_lines E action_type rest actions)"

definition get_agent_actions :: "env \<Rightarrow> string \<Rightarrow> string option \<Rightarrow> int option \<Rightarrow> json list io" where
  "get_agent_actions E session_key action_type limit =
     try_except
       (let actions_path = get_session_path session_key @ ''/agent_actions.jsonl'' in
        io_bind (blob_exists actions_path) (\<lambda>ex.
        if \<not> ex then io_return []
        else
          io_bind (blob_download actions_path) (\<lambda>content.
          io_bind (parse_action_lines E action_type (split_on newline (strip content)) []) (\<lambda>actions.
          (case limit of
             None \<Rightarrow> io_return actions
           | Some l \<Rightarrow> if l \<noteq> 0 then io_return (slice_from_neg actions l)
                      else io_return actions)))))
       (\<lambda>e. io_bind (logger ERROR ''Error getting agent actions'') (\<lambda>_. io_return []))"

subsection \<open>The local file system\<close>

text \<open>
  A path is the list of its components from the root. The regular files are the
  keys of \<open>files\<close>. A directory is the root, a path made by \<open>mkdir\<close>, or a path
  with a regular file below it. Paths are compared component by component: symbolic
  links and \<open>..\<close> are not resolved.
\<close>

definition is_file :: "world \<Rightarrow> path \<Rightarrow> bool" where
  "is_file w p = (map_of (files w) p \<noteq> None)"

definition is_dir :: "world \<Rightarrow> path \<Rightarrow> bool" where
  "is_dir w p = (p = [] \<or> p \<in> set (dirs w) \<or> list_ex (strict_prefix p) (map fst (files w)))"

definition path_exists :: "world \<Rightarrow> path \<Rightarrow> bool" where
  "path_exists w p = (is_file w p \<or> is_dir w p)"

text \<open>\<open>p.mkdir(parents=True, exist_ok=True)\<close>: fails when \<open>p\<close> or an ancestor is a regular file.\<close>

definition mkdir_parents :: "path \<Rightarrow> unit io" where
  "mkdir_parents p = (\<lambda>w.
     if list_ex (is_file w) (prefixes p) then (Inl OSError, w)
     else (Inr (), w\<lparr>dirs := List.union (dirs w) (prefixes p)\<rparr>))"

text \<open>Opening \<open>p\<close> for writing: \<open>p\<close> must not be a directory and its parent must be one.\<close>

definition writable :: "world \<Rightarrow> path \<Rightarrow> bool" where
  "writable w p = (p \<noteq> [] \<and> \<not> is_dir w p \<and> is_dir w (butlast p) \<and> \<not> is_file w (butlast p))"

definition write_file :: "path \<Rightarrow> string \<Rightarrow> unit io" where
  "write_file p content = (\<lambda>w.
     if writable w p then (Inr (), w\<lparr>files := AList.update p content (files w)\<rparr>)
     else (Inl OSError, w))"

definition read_file :: "path \<Rightarrow> string io" where
  "read_file p = (\<lambda>w. (case map_of (files w) p of None \<Rightarrow> Inl OSError | Some c \<Rightarrow> Inr c, w))"

text \<open>The regular files below a directory: \<open>[f for f in d.rglob("*") if f.is_file()]\<close>.\<close>

definition rglob_files :: "world \<Rightarrow> path \<Rightarrow> path list" where
  "rglob_files w d = filter (strict_prefix d) (map fst (files w))"

text \<open>
  \<open>shutil.copy2(src, dst)\<close>: into the directory \<open>dst\<close> under the name of \<open>src\<close>
  when \<open>dst\<close> is a directory; the same file on both sides is an error.
\<close>

definition copy2 :: "path \<Rightarrow> path \<Rightarrow> unit io" where
  "copy2 src dst = (\<lambda>w.
     let target = (if is_dir w dst \<and> src \<noteq> [] then dst @ [last src] else dst) in
     if src = target then (Inl OSError, w)
     else io_bind (read_file src) (\<lambda>data. write_file target data) w)"

text \<open>\<open>str\<close> of a relative path and of an absolute one, and \<open>base / s\<close> for a string \<open>s\<close>.\<close>

fun join_slash :: "string list \<Rightarrow> string" where
  "join_slash [] = []"
| "join_slash [c] = c"
| "join_slash (c # cs) = c @ CHR ''/'' # join_slash cs"

definition str_relative :: "path \<Rightarrow> string" where
  "str_relative p = (if p = [] then ''.'' else join_slash p)"

definition str_absolute :: "path \<Rightarrow> string" where
  "str_absolute p = CHR ''/'' # join_slash p"

definition parse_path :: "string \<Rightarrow> path" where
  "parse_path s = filter (\<lambda>c. c \<noteq> [] \<and> c \<noteq> ''.'') (split_on CHR ''/'' s)"

definition path_join :: "path \<Rightarrow> string \<Rightarrow> path" where
  "path_join base s = (if s \<noteq> [] \<and> hd s = CHR ''/'' then parse_path s else base @ parse_path s)"

subsection \<open>Files in the bucket\<close>

definition upload_file :: "env \<Rightarrow> path \<Rightarrow> string \<Rightarrow> string io" where
  "upload_file E local_path remote_path =
     try_except
       (io_bind (read_file local_path) (\<lambda>data.
        io_bind (blob_upload remote_path data) (\<lambda>_.
        io_return (''gs://'' @ bucket_name E @ ''/'' @ remote_path))))
       (\<lambda>e. io_bind (logger ERROR ''Error uploading file to GCS'') (\<lambda>_. io_raise e))"

text \<open>
  \<open>blob.download_to_filename(p)\<close> opens \<open>p\<close> for writing, then fetches the object
  and writes it.
\<close>

definition blob_download_to_filename :: "string \<Rightarrow> path \<Rightarrow> unit io" where
  "blob_download_to_filename name p = (\<lambda>w.
     if \<not> writable w p then (Inl OSError, w)
     else io_bind (blob_download name) (\<lambda>data. write_file p data) w)"

definition download_file :: "env \<Rightarrow> string \<Rightarrow> path \<Rightarrow> bool io" where
  "download_file E remote_path local_path =
     try_except
       (io_bind (blob_exists remote_path) (\<lambda>ex.
        if \<not> ex
        then io_bind (logger WARNING ''File not found in GCS'') (\<lambda>_. io_return False)
        else
          io_bind (mkdir_parents (butlast local_path)) (\<lambda>_.
          io_bind (blob_download_to_filename remote_path local_path) (\<lambda>_.
          io_return True))))
       (\<lambda>e. io_bind (logger ERROR ''Error downloading file from GCS'') (\<lambda>_. io_return False))"

definition list_files :: "env \<Rightarrow> string \<Rightarrow> string list io" where
  "list_files E pre =
     try_except
       (io_bind gcs_call (\<lambda>_ w. (Inr (filter (prefix pre) (map fst (blobs w))), w)))
       (\<lambda>e. io_bind (logger ERROR ''Error listing files in GCS'') (\<lambda>_. io_return []))"

text \<open>The loop of \<open>sync_workspace_to_gcs\<close> over the regular files of the workspace.\<close>

fun upload_files :: "env \<Rightarrow> path \<Rightarrow> string \<Rightarrow> path list \<Rightarrow> unit io" where
  "upload_files E workspace_path pre [] = io_return ()"
| "upload_files E workspace_path pre (file_path # rest) =
     (let relative_path = drop (length workspace_path) file_path;
          remote_path = pre @ str_relative relative_path in
      io_bind (upload_file E file_path remote_path) (\<lambda>_.
      upload_files E workspace_path pre rest))"

definition sync_workspace_to_gcs :: "env \<Rightarrow> path \<Rightarrow> string \<Rightarrow> unit io" where
  "sync_workspace_to_gcs E workspace_path session_key =
     try_except
       (\<lambda>w. if \<not> path_exists w workspace_path then (Inr (), w)
            else
              (let pre = get_session_path session_key @ ''/files/'' in
               upload_files E workspace_path pre (rglob_files w workspace_path) w))
       (\<lambda>e. logger ERROR ''Error syncing workspace to GCS'')"

text \<open>The loop of \<open>sync_gcs_to_workspace\<close> over the listed objects.\<close>

fun download_files :: "env \<Rightarrow> path \<Rightarrow> string \<Rightarrow> string list \<Rightarrow> unit io" where
  "download_files E workspace_path pre [] = io_return ()"
| "download_files E workspace_path pre (remote_path # rest) =
     (let relative_path = drop (length pre) remote_path;
          local_path = path_join workspace_path relative_path in
      io_bind (download_file E remote_path local_path) (\<lambda>_.
      download_files E workspace_path pre rest))"

definition sync_gcs_to_workspace :: "env \<Rightarrow> path \<Rightarrow> string \<Rightarrow> unit io" where
  "sync_gcs_to_workspace E workspace_path session_key =
     try_except
       (let pre = get_session_path session_key @ ''/files/'' in
        io_bind (list_files E pre) (\<lambda>remote_files.
        download_files E workspace_path pre remote_files))
       (\<lambda>e. logger ERROR ''Error syncing GCS to workspace'')"

section \<open>The gateway (\<open>ServerlessGateway\<close>)\<close>

text \<open>
  What a POST to the Telegram API can come to: a response with a JSON body, a
  timeout, an HTTP error status, or any other failure of the transport.
\<close>

datatype post_outcome = PostOk json | PostTimeout | PostHTTPStatusError | PostFailed

text \<open>
  The gateway object: the allow-list and the bot token of the Telegram channel
  configuration, its workspace and the workspace of the agent loop, the agent
  (\<open>agent_loop.process_direct\<close>: from the message text, the session key and the
  local files to a reply and the files it leaves, or an exception) and the Telegram
  API (from URL, chat id and text to an outcome). The methods of
  \<open>PersistentStorageManager\<close> pass their arguments on to \<open>GCSFileStorage\<close>
  unchanged, so the gateway calls the functions of the storage adapter.
\<close>

record gateway =
  allow_from :: "string list"
  token :: string
  workspace :: path
  agent_workspace :: path
  process_direct :: "json \<Rightarrow> string \<Rightarrow> (path \<times> string) list \<Rightarrow> py_error + (string \<times> (path \<times> string) list)"
  telegram_post :: "string \<Rightarrow> string \<Rightarrow> string \<Rightarrow> post_outcome"

definition fallback_text :: string where
  "fallback_text = ''I received your message but couldn't generate a response.''"

text \<open>\<open>text[:50]\<close> in the first log line: only a string or a list can be sliced.\<close>

fun py_slice_check :: "json \<Rightarrow> py_error + unit" where
  "py_slice_check (JStr s) = Inr ()"
| "py_slice_check (JList xs) = Inr ()"
| "py_slice_check _ = Inl TypeError"

text \<open>The loops that copy the regular files of one directory into another.\<close>

fun copy_files :: "path \<Rightarrow> path \<Rightarrow> path list \<Rightarrow> unit io" where
  "copy_files src dst [] = io_return ()"
| "copy_files src dst (f # rest) =
     (let relative_path = drop (length src) f;
          target = dst @ relative_path in
      io_bind (mkdir_parents (butlast target)) (\<lambda>_.
      io_bind (copy2 f target) (\<lambda>_.
      copy_files src dst rest)))"

definition agent_process_direct :: "gateway \<Rightarrow> json \<Rightarrow> string \<Rightarrow> string io" where
  "agent_process_direct G content session_key = (\<lambda>w.
     case process_direct G content session_key (files w) of
       Inl e \<Rightarrow> (Inl e, w)
     | Inr (response_text, files') \<Rightarrow> (Inr response_text, w\<lparr>files := files'\<rparr>))"

text \<open>
  The statements of \<open>handle_telegram_webhook\<close> from \<open># Create session key\<close> to
  \<open># Log agent actions\<close>: the session record, the files and the history are
  brought in, the user message is appended, the agent runs, its reply is appended,
  the files are pushed back and the file operation is logged. The value is the
  reply of the agent.
\<close>

definition process_message ::
  "env \<Rightarrow> gateway \<Rightarrow> json \<Rightarrow> json \<Rightarrow> string \<Rightarrow> string \<Rightarrow> json \<Rightarrow> string io" where
  "process_message E G message chat chat_id user_id text =
     (let session_key = ''telegram:'' @ chat_id in
      io_bind (get_session E session_key) (\<lambda>session.
      io_bind
        (if \<not> truthy session
         then
           io_bind (io_lift (py_get chat ''type'' (JStr ''unknown''))) (\<lambda>chat_type.
           io_bind (create_or_update_session E session_key user_id
                      (Some [(''chat_type'', chat_type)])) (\<lambda>_.
           io_return ()))
         else io_return ()) (\<lambda>_.
      let session_workspace = path_join (workspace G) (replace_colon session_key) in
      io_bind (mkdir_parents session_workspace) (\<lambda>_.
      io_bind (sync_gcs_to_workspace E session_workspace session_key) (\<lambda>_.
      io_bind (get_chat_history E session_key (Some 50)) (\<lambda>chat_history.
      io_bind
        (\<lambda>w. if path_exists w session_workspace
              then copy_files session_workspace (agent_workspace G)
                     (rglob_files w session_workspace) w
              else (Inr (), w)) (\<lambda>_.
      io_bind (uuid4_str E) (\<lambda>message_id.
      io_bind (io_lift (py_get message ''message_id'' JNull)) (\<lambda>telegram_message_id.
      io_bind (save_chat_message E session_key message_id ''user'' text
                 (Some [(''telegram_message_id'', telegram_message_id)])) (\<lambda>_.
      io_bind (agent_process_direct G text session_key) (\<lambda>response_text.
      io_bind
        (if response_text \<noteq> []
         then
           io_bind (uuid4_str E) (\<lambda>response_message_id.
           save_chat_message E session_key response_message_id ''assistant''
             (JStr response_text) None)
         else io_return ()) (\<lambda>_.
      io_bind
        (\<lambda>w. copy_files (agent_workspace G) session_workspace
                (rglob_files w (agent_workspace G)) w) (\<lambda>_.
      io_bind (sync_workspace_to_gcs E session_workspace session_key) (\<lambda>_.
      io_bind
        (\<lambda>w. if path_exists w session_workspace
              then
                (let files_created = rglob_files w session_workspace in
                 if files_created \<noteq> []
                 then
                   io_bind (save_agent_action E session_key ''file_operation''
                              (JObj [(''files_count'', JInt (int (length files_created))),
                                     (''workspace'', JStr (str_absolute session_workspace))])
                              None) (\<lambda>_.
                   io_return ()) w
                 else (Inr (), w))
              else (Inr (), w)) (\<lambda>_.
      io_return response_text)))))))))))))))"

text \<open>
  The POST to \<open>sendMessage\<close> inside its own \<open>try\<close>: every failure is logged and
  nothing is raised. The request is recorded in \<open>outbox\<close> as it is handed to the
  HTTP client.
\<close>

definition telegram_send :: "gateway \<Rightarrow> string \<Rightarrow> string \<Rightarrow> unit io" where
  "telegram_send G chat_id text = (\<lambda>w.
     let telegram_api_url = ''https://api.telegram.org/bot'' @ token G @ ''/sendMessage'';
         w1 = w\<lparr>outbox := outbox w @ [(chat_id, text)]\<rparr> in
     case telegram_post G telegram_api_url chat_id text of
       PostOk result \<Rightarrow>
         (case py_get result ''ok'' JNull of
            Inl e \<Rightarrow> logger ERROR ''Error sending message to Telegram'' w1
          | Inr ok \<Rightarrow>
              if truthy ok then (Inr (), w1)
              else logger ERROR ''Telegram API error'' w1)
     | PostTimeout \<Rightarrow> logger ERROR ''Timeout sending message to Telegram API'' w1
     | PostHTTPStatusError \<Rightarrow> logger ERROR ''HTTP error sending message to Telegram'' w1
     | PostFailed \<Rightarrow> logger ERROR ''Error sending message to Telegram'' w1)"

text \<open>
  The statements from \<open># Check if we have a response to send\<close> to the last
  \<open>return\<close>: the fallback, the token, the POST and the result.
\<close>

definition send_response :: "gateway \<Rightarrow> string \<Rightarrow> string \<Rightarrow> json io" where
  "send_response G chat_id response_text =
     (let response_text' =
            (if response_text = [] \<or> strip response_text = [] then fallback_text
             else response_text) in
      io_bind
        (if response_text = [] \<or> strip response_text = []
         then logger WARNING ''No response generated'' else io_return ()) (\<lambda>_.
      if token G = []
      then
        io_bind (logger ERROR ''Telegram bot token not found in config'') (\<lambda>_.
        io_return (JObj [(''ok'', JBool False),
                         (''error'', JStr ''Telegram bot token not configured'')]))
      else
        io_bind (telegram_send G chat_id response_text') (\<lambda>_.
        io_return (JObj [(''ok'', JBool True),
                         (''handled'', JBool True),
                         (''response'', JStr response_text')]))))"

definition handle_telegram_webhook :: "env \<Rightarrow> gateway \<Rightarrow> json \<Rightarrow> json io" where
  "handle_telegram_webhook E G update =
     try_except
       (io_bind (io_lift (py_get update ''message'' JNull)) (\<lambda>m.
        io_bind (if truthy m then io_return m
                 else io_lift (py_get update ''edited_message'' JNull)) (\<lambda>message.
        if \<not> truthy message
        then
          io_bind (logger WARNING ''No message found in Telegram update'') (\<lambda>_.
          io_return (JObj [(''ok'', JBool True), (''handled'', JBool False)]))
        else
          io_bind (io_lift (py_get message ''chat'' (JObj []))) (\<lambda>chat.
          io_bind (io_lift (py_get message ''from'' (JObj []))) (\<lambda>user.
          io_bind (io_lift (py_get message ''text'' (JStr []))) (\<lambda>text.
          io_bind (io_lift (py_get chat ''id'' JNull)) (\<lambda>chat_id_value.
          let chat_id = py_str E chat_id_value in
          io_bind (io_lift (py_get user ''id'' JNull)) (\<lambda>user_id_value.
          let user_id = py_str E user_id_value in
          io_bind (io_lift (py_slice_check text)) (\<lambda>_.
          if allow_from G \<noteq> [] \<and> user_id \<notin> set (allow_from G)
          then
            io_bind (logger WARNING ''User not in allowed list'') (\<lambda>_.
            io_return (JObj [(''ok'', JBool True),
                             (''handled'', JBool False),
                             (''error'', JStr ''User not allowed'')]))
          else
            io_bind (process_message E G message chat chat_id user_id text) (\<lambda>response_text.
            send_response G chat_id response_text))))))))))
       (\<lambda>e. io_bind (logger ERROR ''Error handling Telegram webhook'') (\<lambda>_.
            io_return (JObj [(''ok'', JBool False), (''error'', JStr (exc_str E e))])))"

section \<open>Notions used in the statements\<close>

abbreviation no_faults :: "world \<Rightarrow> bool" where
  "no_faults w \<equiv> True \<notin> set (faults w)"

definition history_path :: "string \<Rightarrow> string" where
  "history_path session_key = get_session_path session_key @ ''/chat_history.jsonl''"

definition actions_path :: "string \<Rightarrow> string" where
  "actions_path session_key = get_session_path session_key @ ''/agent_actions.jsonl''"

definition session_json_path :: "string \<Rightarrow> string" where
  "session_json_path session_key = get_session_path session_key @ ''/session.json''"

text \<open>The text of an object of the bucket, empty when there is no such object.\<close>

definition blob_text :: "world \<Rightarrow> string \<Rightarrow> string" where
  "blob_text w name = (case map_of (blobs w) name of None \<Rightarrow> [] | Some c \<Rightarrow> c)"

text \<open>The line that \<open>json.dumps\<close> gives for a document.\<close>

definition dumped :: "env \<Rightarrow> json \<Rightarrow> string" where
  "dumped E d = (case json_dumps E d of Inl _ \<Rightarrow> [] | Inr s \<Rightarrow> s)"

text \<open>
  What the \<open>json\<close> library does on a document that can be serialised:
  \<open>json.dumps\<close> gives one line that starts and ends with a character that is not
  white space (a brace for a dictionary), control characters escaped, and
  \<open>json.loads\<close> reads the document back from it.
\<close>

definition tight :: "string \<Rightarrow> bool" where
  "tight s = (s \<noteq> [] \<and> newline \<notin> set s \<and> \<not> is_space (hd s) \<and> \<not> is_space (last s))"

definition line_ok :: "env \<Rightarrow> json \<Rightarrow> bool" where
  "line_ok E d = (case json_dumps E d of
       Inl _ \<Rightarrow> False
     | Inr s \<Rightarrow> tight s \<and> json_loads E s = Inr d)"

definition jsonl :: "string list \<Rightarrow> string" where
  "jsonl ss = concat (map (\<lambda>s. s @ [newline]) ss)"

text \<open>
  A client that appends messages one after the other, each given by message id,
  role, content and metadata, and the documents it appends when the clock stands
  at \<open>t\<close> before the first call.
\<close>

fun save_chat_messages ::
  "env \<Rightarrow> string \<Rightarrow> (string \<times> string \<times> json \<times> (string \<times> json) list option) list \<Rightarrow> unit io" where
  "save_chat_messages E session_key [] = io_return ()"
| "save_chat_messages E session_key ((message_id, role, content, metadata) # rest) =
     io_bind (save_chat_message E session_key message_id role content metadata)
       (\<lambda>_. save_chat_messages E session_key rest)"

fun message_docs ::
  "env \<Rightarrow> nat \<Rightarrow> (string \<times> string \<times> json \<times> (string \<times> json) list option) list \<Rightarrow> json list" where
  "message_docs E t [] = []"
| "message_docs E t ((message_id, role, content, metadata) # rest) =
     message_doc message_id role content (isoformat E t) metadata # message_docs E (Suc t) rest"

text \<open>
  The lines of a log as the readers cut them, and the values of the lines that are
  not blank and that \<open>json.loads\<close> parses, in order.
\<close>

definition log_lines :: "string \<Rightarrow> string list" where
  "log_lines content = split_on newline (strip content)"

definition parsed :: "env \<Rightarrow> string \<Rightarrow> json option" where
  "parsed E line =
     (if strip line \<noteq> []
      then (case json_loads E line of Inr v \<Rightarrow> Some v | Inl _ \<Rightarrow> None)
      else None)"

definition parsed_lines :: "env \<Rightarrow> string \<Rightarrow> json list" where
  "parsed_lines E content = List.map_filter (parsed E) (log_lines content)"

text \<open>\<open>json.loads\<close> raises nothing but \<open>JSONDecodeError\<close> on the lines of a log.\<close>

definition decode_errors_only :: "env \<Rightarrow> string \<Rightarrow> bool" where
  "decode_errors_only E content =
     list_all (\<lambda>line. case json_loads E line of Inl e \<Rightarrow> e = JSONDecodeError | Inr _ \<Rightarrow> True)
       (log_lines content)"

section \<open>A concrete setting\<close>

text \<open>
  A serialiser in the format of \<open>json.dumps\<close> for texts without control
  characters, and a reader that knows the documents of a given list. They stand for
  the \<open>json\<close> library where a statement is tried on concrete data.
\<close>

definition digit_char :: "nat \<Rightarrow> char" where
  "digit_char n = ''0123456789'' ! n"

fun show_nat :: "nat \<Rightarrow> string" where
  "show_nat n = (if n < 10 then [digit_char n] else show_nat (n div 10) @ [digit_char (n mod 10)])"

definition show_int :: "int \<Rightarrow> string" where
  "show_int i = (if i < 0 then CHR ''-'' # show_nat (nat (- i)) else show_nat (nat i))"

definition quote :: "string \<Rightarrow> string" where
  "quote s = CHR 0x22 # concat (map (\<lambda>c. if c = CHR 0x22 \<or> c = CHR 0x5C then [CHR 0x5C, c] else [c]) s) @ [CHR 0x22]"

fun join_comma :: "string list \<Rightarrow> string" where
  "join_comma [] = []"
| "join_comma [s] = s"
| "join_comma (s # ss) = s @ '', '' @ join_comma ss"

fun dumps_text :: "json \<Rightarrow> string" where
  "dumps_text JNull = ''null''"
| "dumps_text (JBool b) = (if b then ''true'' else ''false'')"
| "dumps_text (JInt i) = show_int i"
| "dumps_text (JStr s) = quote s"
| "dumps_text (JList xs) = ''['' @ join_comma (map dumps_text xs) @ '']''"
| "dumps_text (JObj kvs) =
     ''{'' @ join_comma (map (\<lambda>(k, v). quote k @ '': '' @ dumps_text v) kvs) @ ''}''"

definition loads_among :: "json list \<Rightarrow> string \<Rightarrow> py_error + json" where
  "loads_among ds s =
     (case find (\<lambda>d. dumps_text d = s) ds of
        None \<Rightarrow> Inl JSONDecodeError
      | Some d \<Rightarrow> Inr d)"

fun str_value :: "json \<Rightarrow> string" where
  "str_value JNull = ''None''"
| "str_value (JBool b) = (if b then ''True'' else ''False'')"
| "str_value (JInt i) = show_int i"
| "str_value (JStr s) = s"
| "str_value v = dumps_text v"

definition scenario_env :: "json list \<Rightarrow> env" where
  "scenario_env ds =
     \<lparr> json_dumps = (\<lambda>v. Inr (dumps_text v)),
       json_dumps_indent = (\<lambda>v. Inr (dumps_text v)),
       json_loads = loads_among ds,
       py_str = str_value,
       exc_str = (\<lambda>e. ''error''),
       isoformat = (\<lambda>n. ''2024-01-01T00:00:'' @ show_nat n),
       uuid4 = (\<lambda>n. ''uuid-'' @ show_nat n),
       bucket_name = ''bucket'' \<rparr>"

definition empty_world :: world where
  "empty_world =
     \<lparr> blobs = [], faults = [], clock = 0, uuid_count = 0, log = [],
       files = [], dirs = [], outbox = [] \<rparr>"

text \<open>Two messages, the documents they are stored as, a log with damaged lines, a failing bucket.\<close>

definition two_messages :: "(string \<times> string \<times> json \<times> (string \<times> json) list option) list" where
  "two_messages = [(''m1'', ''user'', JStr ''hello'', None),
                   (''m2'', ''assistant'', JStr ''hi there'', None)]"

definition two_docs :: "json list" where
  "two_docs = message_docs (scenario_env []) 0 two_messages"

definition log_world :: world where
  "log_world = empty_world\<lparr>blobs :=
     [(history_path ''telegram:42'',
       dumps_text (two_docs ! 0) @ [newline] @ ''{not json'' @ [newline] @ [newline]
         @ dumps_text (two_docs ! 1) @ [newline]),
      (actions_path ''telegram:42'',
       ''not json either'' @ [newline] @ dumps_text (two_docs ! 1) @ [newline])]\<rparr>"

definition failing_world :: world where
  "failing_world = empty_world\<lparr>faults := [False, True]\<rparr>"

text \<open>
  A client that upserts a session record several times, each call given by user id
  and metadata, and the records the specification of the Session Record Store
  describes for it: the first call creates a record with
  \<open>created_at = updated_at = now\<close>; a later call sets \<open>updated_at\<close>, overwrites
  \<open>user_id\<close> and merges the metadata, new keys over old ones.
\<close>

fun upsert_all :: "env \<Rightarrow> string \<Rightarrow> (string \<times> (string \<times> json) list option) list \<Rightarrow> unit io" where
  "upsert_all E session_key [] = io_return ()"
| "upsert_all E session_key ((user_id, metadata) # rest) =
     io_bind (create_or_update_session E session_key user_id metadata)
       (\<lambda>_. upsert_all E session_key rest)"

definition session_doc :: "string \<Rightarrow> string \<Rightarrow> string \<Rightarrow> string \<Rightarrow> (string \<times> json) list \<Rightarrow> json" where
  "session_doc session_key user_id created updated metadata = JObj
     [(''session_key'', JStr session_key),
      (''user_id'', JStr user_id),
      (''created_at'', JStr created),
      (''updated_at'', JStr updated),
      (''metadata'', JObj metadata)]"

fun spec_upserts ::
  "env \<Rightarrow> string \<Rightarrow> nat \<Rightarrow> (string \<times> (string \<times> json) list) option
     \<Rightarrow> (string \<times> (string \<times> json) list option) list \<Rightarrow> json list" where
  "spec_upserts E session_key t cur [] = []"
| "spec_upserts E session_key t None ((user_id, metadata) # rest) =
     (let now = isoformat E t;
          m = (case metadata of None \<Rightarrow> [] | Some x \<Rightarrow> x) in
      session_doc session_key user_id now now m
        # spec_upserts E session_key (Suc t) (Some (now, m)) rest)"
| "spec_upserts E session_key t (Some (created, m)) ((user_id, metadata) # rest) =
     (let m' = (case metadata of None \<Rightarrow> m | Some x \<Rightarrow> dict_merge m x) in
      session_doc session_key user_id created (isoformat E t) m'
        # spec_upserts E session_key (Suc t) (Some (created, m')) rest)"

text \<open>The shallow union of the metadata arguments, later calls over earlier ones.\<close>

definition metadata_union ::
  "(string \<times> (string \<times> json) list option) list \<Rightarrow> (string \<rightharpoonup> json)" where
  "metadata_union calls =
     fold (\<lambda>(user_id, metadata) acc.
             acc ++ map_of (case metadata of None \<Rightarrow> [] | Some x \<Rightarrow> x)) calls Map.empty"

text \<open>The record is written by \<open>json.dumps(indent=2)\<close> and read back by \<open>json.loads\<close>.\<close>

definition session_ok :: "env \<Rightarrow> json \<Rightarrow> bool" where
  "session_ok E d = (case json_dumps_indent E d of
       Inl _ \<Rightarrow> False
     | Inr s \<Rightarrow> json_loads E s = Inr d)"

definition is_dict :: "(string \<times> json) list option \<Rightarrow> bool" where
  "is_dict metadata = (case metadata of None \<Rightarrow> True | Some x \<Rightarrow> distinct (map fst x))"

definition three_upserts :: "(string \<times> (string \<times> json) list option) list" where
  "three_upserts =
     [(''7'', Some [(''chat_type'', JStr ''private''), (''lang'', JStr ''en'')]),
      (''8'', Some [(''lang'', JStr ''fr''), (''plan'', JInt 2)]),
      (''7'', None)]"

definition three_sessions :: "json list" where
  "three_sessions = spec_upserts (scenario_env []) ''telegram:42'' 0 None three_upserts"

definition stored_session ::
  "env \<Rightarrow> string \<Rightarrow> (string \<times> (string \<times> json) list) option \<Rightarrow> world \<Rightarrow> bool" where
  "stored_session E k cur w =
     (case cur of
        None \<Rightarrow> map_of (blobs w) (session_json_path k) = None
      | Some (c, m) \<Rightarrow>
          (\<exists>s0 u0 t0. map_of (blobs w) (session_json_path k) = Some s0
             \<and> json_loads E s0 = Inr (session_doc k u0 c t0 m)))"

text \<open>A result of the webhook that says the message was handled.\<close>

definition handled :: "json \<Rightarrow> bool" where
  "handled res = (py_get res ''handled'' JNull = Inr (JBool True))"

text \<open>
  The update of the end-to-end scenario of the specification, and a gateway with a
  given allow-list whose agent always gives the same reply and whose Telegram API
  always comes to the same outcome.
\<close>

definition scenario_update :: json where
  "scenario_update = JObj
     [(''message'', JObj
        [(''chat'', JObj [(''id'', JInt 42), (''type'', JStr ''private'')]),
         (''from'', JObj [(''id'', JInt 7)]),
         (''text'', JStr ''hello'')])]"

definition scenario_gateway :: "string list \<Rightarrow> string \<Rightarrow> post_outcome \<Rightarrow> gateway" where
  "scenario_gateway allowed reply outcome =
     \<lparr> allow_from = allowed,
       token = ''TOKEN'',
       workspace = [''tmp'', ''nanobot_workspace''],
       agent_workspace = [''tmp'', ''nanobot_workspace''],
       process_direct = (\<lambda>content session_key fs. Inr (reply, fs)),
       telegram_post = (\<lambda>url chat_id text. outcome) \<rparr>"

text \<open>
  What the handler reads from an update before the allow-list is looked at: the
  message, the chat, the chat id and the user id as strings, and the text; nothing
  when the update carries no message or one of the reads raises.
\<close>

definition inbound :: "env \<Rightarrow> json \<Rightarrow> (json \<times> json \<times> string \<times> string \<times> json) option" where
  "inbound E update =
     (case py_get update ''message'' JNull of Inl _ \<Rightarrow> None | Inr m1 \<Rightarrow>
      (case (if truthy m1 then Inr m1 else py_get update ''edited_message'' JNull) of
         Inl _ \<Rightarrow> None | Inr message \<Rightarrow>
      if \<not> truthy message then None else
      (case py_get message ''chat'' (JObj []) of Inl _ \<Rightarrow> None | Inr chat \<Rightarrow>
      (case py_get message ''from'' (JObj []) of Inl _ \<Rightarrow> None | Inr user \<Rightarrow>
      (case py_get message ''text'' (JStr []) of Inl _ \<Rightarrow> None | Inr text \<Rightarrow>
      (case py_get chat ''id'' JNull of Inl _ \<Rightarrow> None | Inr chat_id_value \<Rightarrow>
      (case py_get user ''id'' JNull of Inl _ \<Rightarrow> None | Inr user_id_value \<Rightarrow>
      (case py_slice_check text of Inl _ \<Rightarrow> None | Inr _ \<Rightarrow>
         Some (message, chat, py_str E chat_id_value, py_str E user_id_value, text)))))))))"

text \<open>The handler of the outer \<open>try\<close> of \<open>handle_telegram_webhook\<close>.\<close>

definition on_error :: "env \<Rightarrow> py_error \<Rightarrow> json io" where
  "on_error E e = io_bind (logger ERROR ''Error handling Telegram webhook'') (\<lambda>_.
       io_return (JObj [(''ok'', JBool False), (''error'', JStr (exc_str E e))]))"

definition reply_text :: "string \<Rightarrow> string" where
  "reply_text r = (if r = [] \<or> strip r = [] then fallback_text else r)"

text \<open>An answer of the Telegram API that reports success.\<close>

definition ok_response :: post_outcome where
  "ok_response = PostOk (JObj [(''ok'', JBool True)])"

text \<open>
  The notions of the round trip of a workspace. A component of a file name as the
  operating system gives it: not empty, not \<open>.\<close>, without a slash. The names of
  the files below the source directory are made of such components, and no regular
  file lies below another one. The target directory is fresh: no regular file lies
  at, below or above it and no directory below it.
\<close>

definition valid_component :: "string \<Rightarrow> bool" where
  "valid_component c = (c \<noteq> [] \<and> c \<noteq> ''.'' \<and> CHR ''/'' \<notin> set c)"

definition relative_to :: "path \<Rightarrow> path \<Rightarrow> path" where
  "relative_to workspace_path p = drop (length workspace_path) p"

definition files_prefix :: "string \<Rightarrow> string" where
  "files_prefix session_key = get_session_path session_key @ ''/files/''"

definition remote_name :: "string \<Rightarrow> path \<Rightarrow> path \<Rightarrow> string" where
  "remote_name session_key workspace_path p =
     files_prefix session_key @ str_relative (relative_to workspace_path p)"

definition proper_names :: "world \<Rightarrow> path \<Rightarrow> bool" where
  "proper_names w src =
     list_all (\<lambda>p. list_all valid_component (relative_to src p)) (rglob_files w src)"

definition proper_tree :: "world \<Rightarrow> path \<Rightarrow> bool" where
  "proper_tree w src =
     list_all (\<lambda>p. list_all (\<lambda>q. \<not> strict_prefix p q) (rglob_files w src)) (rglob_files w src)"

definition fresh_dir :: "world \<Rightarrow> path \<Rightarrow> bool" where
  "fresh_dir w dst =
     (list_all (\<lambda>f. \<not> prefix dst f \<and> \<not> prefix f dst) (map fst (files w))
      \<and> list_all (\<lambda>d. \<not> strict_prefix dst d) (dirs w))"

text \<open>
  The path in the target directory at which a pushed file is expected, and the path
  to which the pull writes an object of the bucket. An object that the bucket holds
  under the file prefix of the session before the push and that the push does not
  overwrite is in nobody's way when the path it is pulled to is neither equal to,
  nor above, nor below the path of a pushed file.
\<close>

definition target_path :: "path \<Rightarrow> path \<Rightarrow> path \<Rightarrow> path" where
  "target_path src dst p = dst @ relative_to src p"

definition local_path :: "path \<Rightarrow> string \<Rightarrow> string \<Rightarrow> path" where
  "local_path dst session_key remote_path =
     path_join dst (drop (length (files_prefix session_key)) remote_path)"

definition no_conflicting_names :: "world \<Rightarrow> path \<Rightarrow> path \<Rightarrow> string \<Rightarrow> bool" where
  "no_conflicting_names w src dst session_key =
     list_all (\<lambda>n. prefix (files_prefix session_key) n \<longrightarrow>
                 n \<in> set (map (remote_name session_key src) (rglob_files w src))
                 \<or> list_all (\<lambda>p. \<not> prefix (local_path dst session_key n) (target_path src dst p)
                                 \<and> \<not> prefix (target_path src dst p) (local_path dst session_key n))
                      (rglob_files w src))
       (map fst (blobs w))"

text \<open>
  The local file system in the course of a pull, against the one before the push:
  every regular file is an old one, the image of a pushed file in the target
  directory or one of the paths \<open>S\<close> of the other objects, and every directory is
  an old one or lies above such an image or such a path. The paths \<open>S\<close> are apart
  from the images of the pushed files.
\<close>

definition pull_inv :: "world \<Rightarrow> path \<Rightarrow> path \<Rightarrow> path set \<Rightarrow> world \<Rightarrow> bool" where
  "pull_inv w src dst S W =
     ((\<forall>f \<in> fst ` set (files W).
         f \<in> fst ` set (files w) \<or> f \<in> target_path src dst ` set (rglob_files w src) \<or> f \<in> S)
      \<and> (\<forall>d \<in> set (dirs W).
         d \<in> set (dirs w) \<or> (\<exists>p \<in> set (rglob_files w src). strict_prefix d (target_path src dst p))
         \<or> (\<exists>s \<in> S. strict_prefix d s)))"

definition apart :: "world \<Rightarrow> path \<Rightarrow> path \<Rightarrow> path set \<Rightarrow> bool" where
  "apart w src dst S =
     (\<forall>s \<in> S. \<forall>p \<in> set (rglob_files w src).
        \<not> prefix s (target_path src dst p) \<and> \<not> prefix (target_path src dst p) s)"

text \<open>
  A workspace with two files and a bucket that holds an older version of one of
  them and an object of a file that the workspace no longer has; a workspace whose
  file lies in a directory \<open>a\<close> and a bucket that still holds an object for a
  former regular file \<open>a\<close> of the same session.
\<close>

definition workspace_world :: world where
  "workspace_world = empty_world
     \<lparr> blobs := [(''sessions/telegram_42/files/c.txt'', ''old''),
                 (''sessions/telegram_42/files/notes/z.txt'', ''stale'')],
       files := [([''ws'', ''a'', ''b.txt''], ''new''), ([''ws'', ''c.txt''], ''hello'')] \<rparr>"

definition stale_world :: world where
  "stale_world = empty_world
     \<lparr> blobs := [(''sessions/telegram_42/files/a'', ''old'')],
       files := [([''ws'', ''a'', ''b''], ''new'')] \<rparr>"

text \<open>
  Notions for following an object of the bucket through a run. A computation frames
  the object named \<open>hp\<close> when it leaves it as it is and, in a bucket without
  failures to come, leaves a bucket without failures to come. \<open>post P m Q\<close>: from a
  world in \<open>P\<close>, a run of \<open>m\<close> that returns \<open>x\<close> ends in a world in \<open>Q x\<close>.
  \<open>hist hp C\<close>: the bucket has no failures to come and the text of the object
  \<open>hp\<close> is one of \<open>C\<close>.
\<close>

definition frames :: "string \<Rightarrow> 'a io \<Rightarrow> bool" where
  "frames hp m =
     (\<forall>W. (no_faults W \<longrightarrow> no_faults (snd (m W)))
          \<and> map_of (blobs (snd (m W))) hp = map_of (blobs W) hp)"

definition post :: "(world \<Rightarrow> bool) \<Rightarrow> 'a io \<Rightarrow> ('a \<Rightarrow> world \<Rightarrow> bool) \<Rightarrow> bool" where
  "post P m Q = (\<forall>W x W'. P W \<longrightarrow> m W = (Inr x, W') \<longrightarrow> Q x W')"

definition hist :: "string \<Rightarrow> string set \<Rightarrow> world \<Rightarrow> bool" where
  "hist hp C W = (no_faults W \<and> blob_text W hp \<in> C)"

text \<open>\<open>json.dumps\<close> succeeds on every value.\<close>

definition dumps_total :: "env \<Rightarrow> bool" where
  "dumps_total E = (\<forall>d. \<exists>s. json_dumps E d = Inr s)"

text \<open>
  A log text followed by one line of a user record with the given content, and a
  log text followed, when the reply is not empty, by one line of an assistant record
  with the reply; message id, time stamp and metadata are left open.
\<close>

definition user_lines :: "env \<Rightarrow> json \<Rightarrow> string set \<Rightarrow> string set" where
  "user_lines E content C =
     {c @ dumped E (message_doc mid ''user'' content t md) @ [newline] | c mid t md. c \<in> C}"

definition reply_lines :: "env \<Rightarrow> string \<Rightarrow> string set \<Rightarrow> string set" where
  "reply_lines E reply C =
     (if reply = [] then C
      else {c @ dumped E (message_doc mid ''assistant'' (JStr reply) t None) @ [newline] | c mid t.
              c \<in> C})"

definition scenario_message :: json where
  "scenario_message = JObj
        [(''chat'', JObj [(''id'', JInt 42), (''type'', JStr ''private'')]),
         (''from'', JObj [(''id'', JInt 7)]),
         (''text'', JStr ''hello'')]"

text \<open>
  A record of a log is a dictionary. The filter of \<open>get_agent_actions\<close> keeps an
  action when no type is asked for or when \<open>action.get("action_type")\<close> is the type
  asked for.
\<close>

fun is_object :: "json \<Rightarrow> bool" where
  "is_object (JObj d) = True"
| "is_object _ = False"

fun has_type :: "string option \<Rightarrow> json \<Rightarrow> bool" where
  "has_type None action = True"
| "has_type (Some t) action = (py_get action ''action_type'' JNull = Inr (JStr t))"

text \<open>
  Two action records, and a bucket whose history log holds the two message documents
  and whose action log holds the two action records.
\<close>

definition two_actions :: "json list" where
  "two_actions =
     [action_doc ''a1'' ''file_operation'' (JObj [(''files_count'', JInt 2)]) ''2024-01-01T00:00:02'' None,
      action_doc ''a2'' ''tool_call'' (JObj []) ''2024-01-01T00:00:03'' None]"

definition full_world :: world where
  "full_world = empty_world\<lparr>blobs :=
     [(history_path ''telegram:42'', jsonl (map dumps_text two_docs)),
      (actions_path ''telegram:42'', jsonl (map dumps_text two_actions))]\<rparr>"

text \<open>
  A line of 100000 opening brackets. \<open>json.loads\<close> of CPython does not get to the
  end of it: the nesting exceeds the recursion limit of the interpreter and the call
  raises \<open>RecursionError\<close>, which is not a \<open>json.JSONDecodeError\<close>. The library of
  the concrete setting with this behaviour, and a history log with the line between
  the lines of two message documents.
\<close>

definition deep_line :: string where
  "deep_line = replicate 100000 CHR ''[''"

definition deep_env :: env where
  "deep_env = (scenario_env two_docs)
     \<lparr>json_loads := (\<lambda>s. if s = deep_line then Inl RecursionError else loads_among two_docs s)\<rparr>"

definition deep_world :: world where
  "deep_world = empty_world\<lparr>blobs :=
     [(history_path ''telegram:42'',
       jsonl [dumps_text (two_docs ! 0), deep_line, dumps_text (two_docs ! 1)])]\<rparr>"

text \<open>
  \<open>update.get("message") or update.get("edited_message")\<close>, the result for a
  user who is not allowed, an update for an edited message that carries a user id and neither a
  chat nor a text, and a gateway whose agent answers the text \<open>hello\<close> with two
  spaces and every other text with \<open>hi there\<close>.
\<close>

definition update_message :: "json \<Rightarrow> py_error + json" where
  "update_message update =
     (case py_get update ''message'' JNull of
        Inl e \<Rightarrow> Inl e
      | Inr m \<Rightarrow> if truthy m then Inr m else py_get update ''edited_message'' JNull)"

definition not_allowed :: json where
  "not_allowed = JObj [(''ok'', JBool True), (''handled'', JBool False),
                       (''error'', JStr ''User not allowed'')]"

definition bare_update :: json where
  "bare_update = JObj
     [(''message'', JNull),
      (''edited_message'', JObj [(''from'', JObj [(''id'', JInt 7)])])]"

definition picky_gateway :: gateway where
  "picky_gateway = (scenario_gateway [] ''hi there'' ok_response)
     \<lparr>process_direct := (\<lambda>content session_key fs.
         if content = JStr ''hello'' then Inr (''  '', fs) else Inr (''hi there'', fs))\<rparr>"
section \<open>Properties of the storage adapter\<close>

lemma split_on_Cons_ne: "split_on sep s \<noteq> []"
  by (induction s) (auto split: list.splits)

lemma split_on_line: "sep \<notin> set s \<Longrightarrow> split_on sep (s @ sep # t) = s # split_on sep t"
  by (induction s) (auto split: list.splits simp: split_on_Cons_ne)

lemma split_on_last: "sep \<notin> set s \<Longrightarrow> split_on sep s = [s]"
  by (induction s) (auto split: list.splits)

lemma notin_tl [simp]: "x \<notin> set xs \<Longrightarrow> x \<notin> set (tl xs)"
  by (cases xs) auto

lemma gcs_call_ok: "no_faults w \<Longrightarrow> gcs_call w = (Inr (), w\<lparr>faults := tl (faults w)\<rparr>)"
  by (cases "faults w") (auto simp: gcs_call_def)

lemma blob_exists_ok:
  "no_faults w \<Longrightarrow> blob_exists n w = (Inr (map_of (blobs w) n \<noteq> None), w\<lparr>faults := tl (faults w)\<rparr>)"
  by (simp add: blob_exists_def io_bind_def gcs_call_ok)

lemma blob_download_ok:
  "no_faults w \<Longrightarrow> map_of (blobs w) n = Some c \<Longrightarrow>
   blob_download n w = (Inr c, w\<lparr>faults := tl (faults w)\<rparr>)"
  by (simp add: blob_download_def io_bind_def gcs_call_ok)

lemma blob_upload_ok:
  "no_faults w \<Longrightarrow>
   blob_upload n c w = (Inr (), w\<lparr>faults := tl (faults w), blobs := AList.update n c (blobs w)\<rparr>)"
  by (simp add: blob_upload_def io_bind_def gcs_call_ok)

lemma save_chat_message_ok:
  assumes nf: "no_faults w"
    and d: "json_dumps E (message_doc mid role c (isoformat E (clock w)) md) = Inr s"
  shows "\<exists>w'. save_chat_message E k mid role c md w = (Inr (), w')
     \<and> no_faults w' \<and> clock w' = Suc (clock w)
     \<and> map_of (blobs w') = (map_of (blobs w))(history_path k \<mapsto> blob_text w (history_path k) @ s @ [newline])"
proof (cases "map_of (blobs w) (history_path k)")
  case None
  then show ?thesis using nf d
    by (simp add: save_chat_message_def save_chat_message_try_def try_except_def io_bind_def
        utcnow_isoformat_def io_lift_def io_return_def Let_def blob_exists_ok blob_upload_ok
        history_path_def blob_text_def update_conv')
next
  case (Some a)
  then show ?thesis using nf d
    by (simp add: save_chat_message_def save_chat_message_try_def try_except_def io_bind_def
        utcnow_isoformat_def io_lift_def io_return_def Let_def blob_exists_ok blob_upload_ok
        blob_download_ok history_path_def blob_text_def update_conv')
qed

lemma line_ok_dumps: "line_ok E d \<Longrightarrow> json_dumps E d = Inr (dumped E d)"
  by (auto simp: line_ok_def dumped_def split: sum.splits)

lemma line_ok_tight: "line_ok E d \<Longrightarrow> tight (dumped E d)"
  by (auto simp: line_ok_def dumped_def split: sum.splits)

lemma line_ok_loads: "line_ok E d \<Longrightarrow> json_loads E (dumped E d) = Inr d"
  by (auto simp: line_ok_def dumped_def split: sum.splits)

lemma dropWhile_rev_last:
  "xs \<noteq> [] \<Longrightarrow> \<not> P (last xs) \<Longrightarrow> dropWhile P (rev xs) = rev xs"
  by (cases xs rule: rev_cases) auto

lemma jsonl_Nil [simp]: "jsonl [] = []"
  by (simp add: jsonl_def)

lemma strip_tight: "tight s \<Longrightarrow> strip s = s"
proof -
  assume t: "tight s"
  then obtain c cs where s: "s = c # cs" and c: "\<not> is_space c"
    by (cases s) (auto simp: tight_def)
  from t have l: "\<not> is_space (last s)" and ne: "s \<noteq> []" by (auto simp: tight_def)
  have 1: "dropWhile is_space s = s" using s c by simp
  have 2: "dropWhile is_space (rev s) = rev s" using dropWhile_rev_last[of s is_space] l ne by simp
  show ?thesis by (simp add: strip_def 1 2)
qed

lemma is_space_newline [simp]: "is_space newline"
  by (simp add: is_space_def newline_def)

lemma jsonl_snoc: "jsonl (ss @ [s]) = jsonl ss @ s @ [newline]"
  by (simp add: jsonl_def)

lemma jsonl_Cons: "jsonl (s # ss) = s @ newline # jsonl ss"
  by (simp add: jsonl_def)

lemma strip_jsonl:
  assumes "\<forall>s \<in> set ss. tight s" and that: "tight s"
  shows "strip (jsonl (ss @ [s]) ) = jsonl ss @ s"
proof -
  let ?c = "jsonl ss @ s"
  have t: "tight ?c \<or> True" by simp
  have ne: "?c \<noteq> []" using that by (simp add: tight_def)
  have hd_ok: "\<not> is_space (hd ?c)"
  proof (cases ss)
    case Nil
    then show ?thesis using that by (simp add: jsonl_def tight_def)
  next
    case (Cons a list)
    then have "tight a" using assms by simp
    then show ?thesis using Cons by (cases a) (auto simp: jsonl_Cons tight_def)
  qed
  have last_ok: "\<not> is_space (last ?c)" using that by (simp add: tight_def)
  have 1: "dropWhile is_space (?c @ [newline]) = ?c @ [newline]"
    using ne hd_ok by (cases ?c) auto
  have 2: "dropWhile is_space (rev (?c @ [newline])) = rev ?c"
    using dropWhile_rev_last[of ?c is_space] ne last_ok by simp
  have "strip (?c @ [newline]) = ?c"
    unfolding strip_def 1 2 by simp
  then show ?thesis by (simp add: jsonl_snoc)
qed

lemma split_jsonl:
  "\<forall>s \<in> set ss. newline \<notin> set s \<Longrightarrow> newline \<notin> set s \<Longrightarrow>
   split_on newline (jsonl ss @ s) = ss @ [s]"
  by (induction ss) (auto simp: jsonl_Cons split_on_line split_on_last)

lemma read_lines:
  assumes "ss \<noteq> []" "\<forall>s \<in> set ss. tight s"
  shows "split_on newline (strip (jsonl ss)) = ss"
proof -
  obtain ss' s where ss: "ss = ss' @ [s]" using assms(1) by (metis rev_exhaust)
  have ts: "tight s" and tss: "\<forall>s \<in> set ss'. tight s" using assms(2) ss by auto
  have "strip (jsonl ss) = jsonl ss' @ s" using strip_jsonl[OF tss ts] ss by simp
  moreover have "split_on newline (jsonl ss' @ s) = ss' @ [s]"
    using ts tss by (intro split_jsonl) (auto simp: tight_def)
  ultimately show ?thesis using ss by simp
qed

lemma parse_chat_lines_ok:
  "\<forall>d \<in> set ds. line_ok E d \<Longrightarrow>
   parse_chat_lines E (map (dumped E) ds) acc w = (Inr (acc @ ds), w)"
proof (induction ds arbitrary: acc)
  case Nil
  then show ?case by (simp add: io_return_def)
next
  case (Cons d ds)
  then have "line_ok E d" by simp
  then have "strip (dumped E d) \<noteq> []" "json_loads E (dumped E d) = Inr d"
    using line_ok_tight[of E d] strip_tight[of "dumped E d"] line_ok_loads[of E d]
    by (auto simp: tight_def)
  then show ?case using Cons by simp
qed

lemma save_chat_messages_ok:
  "no_faults w \<Longrightarrow> \<forall>d \<in> set (message_docs E (clock w) msgs). line_ok E d \<Longrightarrow>
   \<exists>w'. save_chat_messages E k msgs w = (Inr (), w') \<and> no_faults w'
     \<and> map_of (blobs w') (history_path k) =
        (if msgs = [] then map_of (blobs w) (history_path k)
         else Some (blob_text w (history_path k)
                    @ jsonl (map (dumped E) (message_docs E (clock w) msgs))))"
proof (induction msgs arbitrary: w)
  case Nil
  then show ?case by (simp add: io_return_def)
next
  case (Cons m msgs)
  obtain mid role c md where m: "m = (mid, role, c, md)" by (cases m) auto
  let ?d = "message_doc mid role c (isoformat E (clock w)) md"
  have ok: "line_ok E ?d" using Cons.prems m by simp
  from save_chat_message_ok[OF Cons.prems(1) line_ok_dumps[OF ok], of k]
  obtain w1 where w1: "save_chat_message E k mid role c md w = (Inr (), w1)"
    "no_faults w1" "clock w1 = Suc (clock w)"
    "map_of (blobs w1) = (map_of (blobs w))(history_path k \<mapsto> blob_text w (history_path k) @ dumped E ?d @ [newline])"
    by blast
  have "\<forall>d \<in> set (message_docs E (clock w1) msgs). line_ok E d"
    using Cons.prems m w1(3) by simp
  from Cons.IH[OF w1(2) this]
  obtain w2 where w2: "save_chat_messages E k msgs w1 = (Inr (), w2)" "no_faults w2"
    "map_of (blobs w2) (history_path k) =
        (if msgs = [] then map_of (blobs w1) (history_path k)
         else Some (blob_text w1 (history_path k)
                    @ jsonl (map (dumped E) (message_docs E (clock w1) msgs))))"
    by blast
  have bt: "blob_text w1 (history_path k) = blob_text w (history_path k) @ dumped E ?d @ [newline]"
    using w1(4) by (simp add: blob_text_def)
  show ?case
    using w1 w2 m bt by (auto simp: io_bind_def jsonl_Cons jsonl_def)
qed

lemma parse_chat_lines_skip:
  "list_all (\<lambda>line. case json_loads E line of Inl e \<Rightarrow> e = JSONDecodeError | Inr _ \<Rightarrow> True) ls \<Longrightarrow>
   fst (parse_chat_lines E ls acc w) = Inr (acc @ List.map_filter (parsed E) ls)"
proof (induction ls arbitrary: acc w)
  case Nil
  then show ?case by (simp add: io_return_def)
next
  case (Cons l ls)
  show ?case
  proof (cases "strip l = []")
    case True
    then show ?thesis using Cons by (simp add: parsed_def)
  next
    case False
    show ?thesis
    proof (cases "json_loads E l")
      case (Inl e)
      then have "e = JSONDecodeError" using Cons.prems by simp
      then show ?thesis using Cons Inl False
        by (simp add: parsed_def io_bind_def logger_def)
    next
      case (Inr v)
      then show ?thesis using Cons False by (simp add: parsed_def)
    qed
  qed
qed

lemma parse_action_lines_skip:
  "list_all (\<lambda>line. case json_loads E line of Inl e \<Rightarrow> e = JSONDecodeError | Inr _ \<Rightarrow> True) ls \<Longrightarrow>
   fst (parse_action_lines E None ls acc w) = Inr (acc @ List.map_filter (parsed E) ls)"
proof (induction ls arbitrary: acc w)
  case Nil
  then show ?case by (simp add: io_return_def)
next
  case (Cons l ls)
  show ?case
  proof (cases "strip l = []")
    case True
    then show ?thesis using Cons by (simp add: parsed_def)
  next
    case False
    show ?thesis
    proof (cases "json_loads E l")
      case (Inl e)
      then have "e = JSONDecodeError" using Cons.prems by simp
      then show ?thesis using Cons Inl False
        by (simp add: parsed_def io_bind_def logger_def)
    next
      case (Inr v)
      then show ?thesis using Cons False by (simp add: parsed_def)
    qed
  qed
qed

lemma get_chat_history_read:
  assumes "map_of (blobs w) (history_path k) = Some c" "no_faults w" "decode_errors_only E c"
  shows "fst (get_chat_history E k None w) = Inr (parsed_lines E c)"
proof -
  let ?w = "w\<lparr>faults := tl (tl (faults w))\<rparr>"
  obtain r w' where p: "parse_chat_lines E (split_on newline (strip c)) [] ?w = (r, w')"
    by (cases "parse_chat_lines E (split_on newline (strip c)) [] ?w")
  have "r = Inr (parsed_lines E c)"
    using parse_chat_lines_skip[of E "split_on newline (strip c)" "[]" ?w] assms(3) p
    by (simp add: parsed_lines_def decode_errors_only_def log_lines_def)
  then show ?thesis using assms(1,2) p
    by (simp add: get_chat_history_def try_except_def io_bind_def Let_def blob_exists_ok
        blob_download_ok io_return_def history_path_def)
qed

lemma get_agent_actions_read:
  assumes "map_of (blobs w) (actions_path k) = Some c" "no_faults w" "decode_errors_only E c"
  shows "fst (get_agent_actions E k None None w) = Inr (parsed_lines E c)"
proof -
  let ?w = "w\<lparr>faults := tl (tl (faults w))\<rparr>"
  obtain r w' where p: "parse_action_lines E None (split_on newline (strip c)) [] ?w = (r, w')"
    by (cases "parse_action_lines E None (split_on newline (strip c)) [] ?w")
  have "r = Inr (parsed_lines E c)"
    using parse_action_lines_skip[of E "split_on newline (strip c)" "[]" ?w] assms(3) p
    by (simp add: parsed_lines_def decode_errors_only_def log_lines_def)
  then show ?thesis using assms(1,2) p
    by (simp add: get_agent_actions_def try_except_def io_bind_def Let_def blob_exists_ok
        blob_download_ok io_return_def actions_path_def)
qed

lemma try_except_total:
  "(\<And>e w'. \<exists>x. fst (h e w') = Inr x) \<Longrightarrow> \<exists>x. fst (try_except m h w) = Inr x"
  by (cases "m w") (auto simp: try_except_def split: sum.splits)

lemmas io_defs = io_bind_def io_return_def io_raise_def io_lift_def try_except_def logger_def
  utcnow_isoformat_def uuid4_str_def gcs_call_def blob_exists_def blob_download_def blob_upload_def

lemmas path_defs = get_session_path_def replace_colon_def history_path_def actions_path_def
  session_json_path_def

lemmas scenario_defs = scenario_env_def empty_world_def loads_among_def quote_def show_int_def
  digit_char_def message_doc_def action_doc_def newline_def

lemma length_message_docs [simp]: "length (message_docs E t msgs) = length msgs"
  by (induction E t msgs rule: message_docs.induct) auto

lemma read_after_appends:
  assumes fresh: "map_of (blobs w) (history_path k) = None"
    and nf: "no_faults w"
    and ok: "\<forall>d \<in> set (message_docs E (clock w) msgs). line_ok E d"
  shows "fst (get_chat_history E k limit (snd (save_chat_messages E k msgs w))) =
         Inr (case limit of
                None \<Rightarrow> message_docs E (clock w) msgs
              | Some l \<Rightarrow> if l \<noteq> 0 then slice_from_neg (message_docs E (clock w) msgs) l
                          else message_docs E (clock w) msgs)"
proof -
  let ?docs = "message_docs E (clock w) msgs"
  from save_chat_messages_ok[OF nf ok, of k]
  obtain w' where w': "save_chat_messages E k msgs w = (Inr (), w')" "no_faults w'"
    "map_of (blobs w') (history_path k) =
        (if msgs = [] then map_of (blobs w) (history_path k)
         else Some (blob_text w (history_path k) @ jsonl (map (dumped E) ?docs)))"
    by blast
  show ?thesis
  proof (cases "msgs = []")
    case True
    then have "map_of (blobs w') (history_path k) = None" using w'(3) fresh by simp
    then show ?thesis using w'(1,2) True
      by (simp add: get_chat_history_def try_except_def io_bind_def Let_def blob_exists_ok
          io_return_def history_path_def slice_from_neg_def split: option.splits)
  next
    case False
    then have docs_ne: "?docs \<noteq> []" by (cases msgs) auto
    have content: "map_of (blobs w') (history_path k) = Some (jsonl (map (dumped E) ?docs))"
      using w'(3) False fresh by (simp add: blob_text_def)
    have lines: "split_on newline (strip (jsonl (map (dumped E) ?docs))) = map (dumped E) ?docs"
      using docs_ne ok by (intro read_lines) (auto simp: line_ok_tight)
    have parse: "\<And>v. parse_chat_lines E (map (dumped E) ?docs) [] v = (Inr ?docs, v)"
      using parse_chat_lines_ok[OF ok, of "[]"] by simp
    show ?thesis using w'(1,2) content
      by (simp add: get_chat_history_def try_except_def io_bind_def Let_def blob_exists_ok
          blob_download_ok io_return_def history_path_def lines parse split: option.splits)
  qed
qed

text \<open>
  The round trip of the history log. On a session whose history object does not
  exist yet, with a bucket that answers every call and documents that the \<open>json\<close>
  library writes on one line and reads back, appending \<open>N\<close> messages and reading with
  no limit returns the \<open>N\<close> documents in the order of the appends, and reading with a
  limit \<open>l > 0\<close> returns the last \<open>l\<close> of them in that order (all of them
  when \<open>l \<ge> N\<close>).
\<close>

theorem append_then_read:
  assumes "map_of (blobs w) (history_path k) = None"
    and "no_faults w"
    and "\<forall>d \<in> set (message_docs E (clock w) msgs). line_ok E d"
  shows "fst (get_chat_history E k None (snd (save_chat_messages E k msgs w)))
           = Inr (message_docs E (clock w) msgs)
       \<and> (\<forall>l. 0 < l \<longrightarrow>
            fst (get_chat_history E k (Some l) (snd (save_chat_messages E k msgs w)))
              = Inr (drop (length msgs - nat l) (message_docs E (clock w) msgs)))"
  using read_after_appends[OF assms, of None] read_after_appends[OF assms, of "Some _"]
  by (auto simp: slice_from_neg_def)

text \<open>The statement at two messages and the limit 1.\<close>

theorem append_then_read_witness:
  "fst (get_chat_history (scenario_env two_docs) ''telegram:42'' None
          (snd (save_chat_messages (scenario_env two_docs) ''telegram:42'' two_messages empty_world)))
     = Inr two_docs
   \<and> fst (get_chat_history (scenario_env two_docs) ''telegram:42'' (Some 1)
          (snd (save_chat_messages (scenario_env two_docs) ''telegram:42'' two_messages empty_world)))
     = Inr [two_docs ! 1]"
proof -
  let ?E = "scenario_env two_docs"
  have h1: "map_of (blobs empty_world) (history_path ''telegram:42'') = None" by code_simp
  have h2: "no_faults empty_world" by code_simp
  have h3: "\<forall>d \<in> set (message_docs ?E (clock empty_world) two_messages). line_ok ?E d"
    by code_simp
  have d: "message_docs ?E (clock empty_world) two_messages = two_docs" by code_simp
  have e: "drop (length two_messages - nat 1) two_docs = [two_docs ! 1]" by code_simp
  from append_then_read[OF h1 h2 h3] d e show ?thesis by simp
qed

text \<open>
  C1 fails on the code at \<open>k = 0 < N\<close>. After two appends to an empty log, the read
  with \<open>limit = 0\<close> returns both documents: the guard \<open>if limit:\<close> takes 0 for no
  limit. The last zero records, and at most zero records as the docstring of
  \<open>get_chat_history\<close> has it (\<open>limit: Maximum number of messages to return\<close>), are
  the empty list.
\<close>

theorem limit_zero_not_last_zero:
  "fst (get_chat_history (scenario_env two_docs) ''telegram:42'' (Some 0)
          (snd (save_chat_messages (scenario_env two_docs) ''telegram:42'' two_messages empty_world)))
     = Inr two_docs
   \<and> length two_docs = 2
   \<and> drop (length two_docs - nat 0) two_docs = []"
  by code_simp

lemma parse_action_lines_ok:
  "\<forall>d \<in> set ds. line_ok E d \<and> is_object d \<Longrightarrow>
   parse_action_lines E ty (map (dumped E) ds) acc w = (Inr (acc @ filter (has_type ty) ds), w)"
proof (induction ds arbitrary: acc)
  case Nil
  then show ?case by (simp add: io_return_def)
next
  case (Cons d ds)
  then have ok: "line_ok E d" and ob: "is_object d" by simp_all
  from ok have l: "strip (dumped E d) \<noteq> []" "json_loads E (dumped E d) = Inr d"
    using line_ok_tight[of E d] strip_tight[of "dumped E d"] line_ok_loads[of E d]
    by (auto simp: tight_def)
  obtain items where d: "d = JObj items" using ob by (cases d) simp_all
  show ?case
  proof (cases ty)
    case None
    then show ?thesis using Cons l by simp
  next
    case (Some t)
    then show ?thesis using Cons l d by simp
  qed
qed

lemma lines_of_docs:
  assumes "\<forall>d \<in> set ds. line_ok E d" "ds \<noteq> []"
  shows "split_on newline (strip (jsonl (map (dumped E) ds))) = map (dumped E) ds"
  using assms by (intro read_lines) (auto simp: line_ok_tight)

lemma strip_Nil: "strip [] = []"
  by (simp add: strip_def)

lemma read_chat_docs:
  assumes "no_faults w"
    and "map_of (blobs w) (history_path k) = Some (jsonl (map (dumped E) ds))"
    and "\<forall>d \<in> set ds. line_ok E d"
    and "limit = None \<or> limit = Some 0"
  shows "fst (get_chat_history E k limit w) = Inr ds"
proof (cases "ds = []")
  case True
  then show ?thesis using assms
    by (auto simp: get_chat_history_def try_except_def io_bind_def Let_def blob_exists_ok
        blob_download_ok io_return_def history_path_def strip_Nil)
next
  case False
  have parse: "\<And>v. parse_chat_lines E (map (dumped E) ds) [] v = (Inr ds, v)"
    using parse_chat_lines_ok[OF assms(3), of "[]"] by simp
  show ?thesis using assms(1,2,4) lines_of_docs[OF assms(3) False]
    by (auto simp: get_chat_history_def try_except_def io_bind_def Let_def blob_exists_ok
        blob_download_ok io_return_def history_path_def parse)
qed

lemma read_action_docs:
  assumes "no_faults w"
    and "map_of (blobs w) (actions_path k) = Some (jsonl (map (dumped E) ds))"
    and "\<forall>d \<in> set ds. line_ok E d \<and> is_object d"
    and "limit = None \<or> limit = Some 0"
  shows "fst (get_agent_actions E k ty limit w) = Inr (filter (has_type ty) ds)"
proof (cases "ds = []")
  case True
  then show ?thesis using assms
    by (auto simp: get_agent_actions_def try_except_def io_bind_def Let_def blob_exists_ok
        blob_download_ok io_return_def actions_path_def strip_Nil)
next
  case False
  have ok: "\<forall>d \<in> set ds. line_ok E d" using assms(3) by simp
  have parse: "\<And>v. parse_action_lines E ty (map (dumped E) ds) [] v
                   = (Inr (filter (has_type ty) ds), v)"
    using parse_action_lines_ok[OF assms(3), of ty "[]"] by simp
  show ?thesis using assms(1,2,4) lines_of_docs[OF ok False]
    by (auto simp: get_agent_actions_def try_except_def io_bind_def Let_def blob_exists_ok
        blob_download_ok io_return_def actions_path_def parse)
qed

lemma jsonl_empty: "jsonl ss = [] \<Longrightarrow> ss = []"
  by (cases ss) (simp_all add: jsonl_def)

lemma read_chat_text:
  assumes "no_faults w"
    and "blob_text w (history_path k) = jsonl (map (dumped E) ds)"
    and "\<forall>d \<in> set ds. line_ok E d"
    and "limit = None \<or> limit = Some 0"
  shows "fst (get_chat_history E k limit w) = Inr ds"
proof (cases "map_of (blobs w) (history_path k)")
  case None
  then have "ds = []" using assms(2) jsonl_empty[of "map (dumped E) ds"] by (simp add: blob_text_def)
  then show ?thesis using None assms(1)
    by (simp add: get_chat_history_def try_except_def io_bind_def Let_def blob_exists_ok
        io_return_def history_path_def)
next
  case (Some c)
  then have "map_of (blobs w) (history_path k) = Some (jsonl (map (dumped E) ds))"
    using assms(2) by (simp add: blob_text_def)
  then show ?thesis by (rule read_chat_docs[OF assms(1) _ assms(3,4)])
qed

lemma read_action_text:
  assumes "no_faults w"
    and "blob_text w (actions_path k) = jsonl (map (dumped E) ds)"
    and "\<forall>d \<in> set ds. line_ok E d \<and> is_object d"
    and "limit = None \<or> limit = Some 0"
  shows "fst (get_agent_actions E k ty limit w) = Inr (filter (has_type ty) ds)"
proof (cases "map_of (blobs w) (actions_path k)")
  case None
  then have "ds = []" using assms(2) jsonl_empty[of "map (dumped E) ds"] by (simp add: blob_text_def)
  then show ?thesis using None assms(1)
    by (simp add: get_agent_actions_def try_except_def io_bind_def Let_def blob_exists_ok
        io_return_def actions_path_def)
next
  case (Some c)
  then have "map_of (blobs w) (actions_path k) = Some (jsonl (map (dumped E) ds))"
    using assms(2) by (simp add: blob_text_def)
  then show ?thesis by (rule read_action_docs[OF assms(1) _ assms(3,4)])
qed

text \<open>
  C9. On a bucket that answers every call: when the history log holds the lines of
  the documents \<open>messages\<close> (none when there is no log), written on one line each and
  read back by the \<open>json\<close> library, \<open>get_chat_history\<close> with \<open>limit = 0\<close> returns
  all of \<open>messages\<close>; when the action log holds the lines of the records
  \<open>actions\<close>, \<open>get_agent_actions\<close> with \<open>limit = 0\<close> returns all the records of
  \<open>actions\<close> that pass its filter, all of them without a filter; and both calls do
  what the call with \<open>limit = None\<close> does.
\<close>

theorem limit_zero_is_no_limit:
  assumes "no_faults w"
  shows "(blob_text w (history_path session_key) = jsonl (map (dumped E) messages)
            \<and> (\<forall>d \<in> set messages. line_ok E d)
          \<longrightarrow> fst (get_chat_history E session_key (Some 0) w) = Inr messages)
       \<and> (blob_text w (actions_path session_key) = jsonl (map (dumped E) actions)
            \<and> (\<forall>d \<in> set actions. line_ok E d \<and> is_object d)
          \<longrightarrow> fst (get_agent_actions E session_key action_type (Some 0) w)
                = Inr (filter (has_type action_type) actions))
       \<and> get_chat_history E session_key (Some 0) w = get_chat_history E session_key None w
       \<and> get_agent_actions E session_key action_type (Some 0) w
           = get_agent_actions E session_key action_type None w"
proof (intro conjI impI)
  assume "blob_text w (history_path session_key) = jsonl (map (dumped E) messages)
            \<and> (\<forall>d \<in> set messages. line_ok E d)"
  then show "fst (get_chat_history E session_key (Some 0) w) = Inr messages"
    using read_chat_text[OF assms, of session_key E messages "Some 0"] by simp
next
  assume "blob_text w (actions_path session_key) = jsonl (map (dumped E) actions)
            \<and> (\<forall>d \<in> set actions. line_ok E d \<and> is_object d)"
  then show "fst (get_agent_actions E session_key action_type (Some 0) w)
                = Inr (filter (has_type action_type) actions)"
    using read_action_text[OF assms, of session_key E actions "Some 0" action_type] by simp
next
  show "get_chat_history E session_key (Some 0) w = get_chat_history E session_key None w"
    by (simp add: get_chat_history_def Let_def cong: if_cong)
next
  show "get_agent_actions E session_key action_type (Some 0) w
           = get_agent_actions E session_key action_type None w"
    by (simp add: get_agent_actions_def Let_def cong: if_cong)
qed

text \<open>
  A history log of two documents and an action log of two records, read with
  \<open>limit = 0\<close>, without a filter and with the filter \<open>tool_call\<close>.
\<close>

theorem limit_zero_is_no_limit_witness:
  "fst (get_chat_history (scenario_env (two_docs @ two_actions)) ''telegram:42'' (Some 0) full_world)
     = Inr two_docs
   \<and> fst (get_agent_actions (scenario_env (two_docs @ two_actions)) ''telegram:42'' None (Some 0)
            full_world) = Inr two_actions
   \<and> fst (get_agent_actions (scenario_env (two_docs @ two_actions)) ''telegram:42''
            (Some ''tool_call'') (Some 0) full_world) = Inr [two_actions ! 1]
   \<and> two_docs \<noteq> []"
proof -
  let ?E = "scenario_env (two_docs @ two_actions)"
  have h1: "no_faults full_world" by code_simp
  have h2: "blob_text full_world (history_path ''telegram:42'')
              = jsonl (map (dumped ?E) two_docs) \<and> (\<forall>d \<in> set two_docs. line_ok ?E d)"
    by code_simp
  have h3: "blob_text full_world (actions_path ''telegram:42'')
              = jsonl (map (dumped ?E) two_actions)
            \<and> (\<forall>d \<in> set two_actions. line_ok ?E d \<and> is_object d)" by code_simp
  have f: "filter (has_type None) two_actions = two_actions"
    "filter (has_type (Some ''tool_call'')) two_actions = [two_actions ! 1]"
    "two_docs \<noteq> []" by code_simp+
  note a = limit_zero_is_no_limit[OF h1, of "''telegram:42''" ?E two_docs two_actions None]
  note b = limit_zero_is_no_limit[OF h1, of "''telegram:42''" ?E two_docs two_actions
              "Some ''tool_call''"]
  show ?thesis
    by (intro conjI)
      (rule a[THEN conjunct1, THEN mp, OF h2],
       rule a[THEN conjunct2, THEN conjunct1, THEN mp, OF h3, unfolded f(1)],
       rule b[THEN conjunct2, THEN conjunct1, THEN mp, OF h3, unfolded f(2)], rule f(3))
qed

text \<open>
  Whatever the content of the log objects, when the bucket answers and
  \<open>json.loads\<close> fails in no other way than by \<open>JSONDecodeError\<close>, the read of the
  chat history and the unfiltered read of the agent actions return the values of the
  lines that are not blank and that parse, in order: a line that does not parse is
  left out, the read goes on, and the other lines are returned as they are.
\<close>

theorem malformed_line_skipped:
  assumes "map_of (blobs w) (history_path k) = Some c"
    and "map_of (blobs w) (actions_path k) = Some a"
    and "no_faults w"
    and "decode_errors_only E c"
    and "decode_errors_only E a"
  shows "fst (get_chat_history E k None w) = Inr (parsed_lines E c)
       \<and> fst (get_agent_actions E k None None w) = Inr (parsed_lines E a)"
  using get_chat_history_read[OF assms(1,3,4)] get_agent_actions_read[OF assms(2,3,5)]
  by simp

text \<open>A chat log with a damaged line and a blank line, an action log that starts with a damaged line.\<close>

theorem malformed_line_skipped_witness:
  "fst (get_chat_history (scenario_env two_docs) ''telegram:42'' None log_world) = Inr two_docs
   \<and> fst (get_agent_actions (scenario_env two_docs) ''telegram:42'' None None log_world)
       = Inr [two_docs ! 1]"
proof -
  let ?E = "scenario_env two_docs"
  let ?c = "blob_text log_world (history_path ''telegram:42'')"
  let ?a = "blob_text log_world (actions_path ''telegram:42'')"
  have h1: "map_of (blobs log_world) (history_path ''telegram:42'') = Some ?c" by code_simp
  have h2: "map_of (blobs log_world) (actions_path ''telegram:42'') = Some ?a" by code_simp
  have h3: "no_faults log_world" by code_simp
  have h4: "decode_errors_only ?E ?c" by code_simp
  have h5: "decode_errors_only ?E ?a" by code_simp
  have p: "parsed_lines ?E ?c = two_docs" "parsed_lines ?E ?a = [two_docs ! 1]" by code_simp+
  from malformed_line_skipped[OF h1 h2 h3 h4 h5] p show ?thesis by simp
qed

lemma parse_chat_lines_abort:
  assumes "\<forall>d \<in> set ds. line_ok E d" "strip bad \<noteq> []" "json_loads E bad = Inl e"
    "e \<noteq> JSONDecodeError"
  shows "parse_chat_lines E (map (dumped E) ds @ bad # rest) acc v = (Inl e, v)"
  using assms(1)
proof (induction ds arbitrary: acc)
  case Nil
  then show ?case using assms(2,3,4) by (simp add: io_raise_def)
next
  case (Cons d ds)
  then have "line_ok E d" by simp
  then have "strip (dumped E d) \<noteq> []" "json_loads E (dumped E d) = Inr d"
    using line_ok_tight[of E d] strip_tight[of "dumped E d"] line_ok_loads[of E d]
    by (auto simp: tight_def)
  then show ?case using Cons by simp
qed

lemma read_aborts:
  assumes nf: "no_faults w"
    and c: "map_of (blobs w) (history_path k)
              = Some (jsonl (map (dumped E) ds @ bad # map (dumped E) ds'))"
    and ok: "\<forall>d \<in> set ds. line_ok E d" "\<forall>d \<in> set ds'. line_ok E d"
    and bad: "tight bad" "json_loads E bad = Inl e" "e \<noteq> JSONDecodeError"
  shows "fst (get_chat_history E k limit w) = Inr []
       \<and> log (snd (get_chat_history E k limit w)) = log w @ [(ERROR, ''Error getting chat history'')]"
proof -
  let ?ls = "map (dumped E) ds @ bad # map (dumped E) ds'"
  have t: "\<forall>s \<in> set ?ls. tight s" using ok bad(1) by (auto simp: line_ok_tight)
  have lines: "split_on newline (strip (jsonl ?ls)) = ?ls"
    using t by (intro read_lines) simp_all
  have sb: "strip bad \<noteq> []" using bad(1) strip_tight[of bad] by (auto simp: tight_def)
  have parse: "\<And>v. parse_chat_lines E ?ls [] v = (Inl e, v)"
    using parse_chat_lines_abort[OF ok(1) sb bad(2,3)] by simp
  show ?thesis using nf c
    by (simp add: get_chat_history_def try_except_def io_bind_def Let_def blob_exists_ok
        blob_download_ok io_return_def history_path_def lines parse logger_def)
qed

lemma deep_line_tight: "tight deep_line"
  by (simp add: tight_def deep_line_def newline_def is_space_def)

lemma deep_env_line_ok:
  assumes "d \<in> set two_docs"
  shows "line_ok deep_env d"
proof -
  have a: "\<forall>d \<in> set two_docs. line_ok (scenario_env two_docs) d \<and> length (dumps_text d) < 1000"
    by code_simp
  then have l: "line_ok (scenario_env two_docs) d" "length (dumps_text d) < 1000"
    using assms by simp_all
  have "length deep_line = 100000" by (simp add: deep_line_def)
  then have ne: "dumps_text d \<noteq> deep_line" using l(2) by auto
  show ?thesis using l(1) ne by (simp add: line_ok_def deep_env_def scenario_env_def)
qed

text \<open>
  C4 fails on the code for a line on which \<open>json.loads\<close> raises something else than
  \<open>JSONDecodeError\<close>. The history log holds a valid record, a line of 100000
  opening brackets and a second valid record. The \<open>except json.JSONDecodeError\<close> of
  the loop does not catch the \<open>RecursionError\<close> of the second line; the outer
  \<open>except Exception\<close> does, logs an error and returns the empty list. The read is
  aborted and the two valid records, which are the values of the lines that parse,
  are not returned.
\<close>

theorem deep_line_aborts_read:
  "fst (get_chat_history deep_env ''telegram:42'' None deep_world) = Inr []
   \<and> log (snd (get_chat_history deep_env ''telegram:42'' None deep_world))
       = [(ERROR, ''Error getting chat history'')]
   \<and> parsed_lines deep_env (blob_text deep_world (history_path ''telegram:42'')) = two_docs"
proof -
  define d0 where "d0 = two_docs ! 0"
  define d1 where "d1 = two_docs ! 1"
  have td: "two_docs = [d0, d1]" unfolding d0_def d1_def by code_simp
  have ok: "line_ok deep_env d0" "line_ok deep_env d1"
    using deep_env_line_ok[of d0] deep_env_line_ok[of d1] td by (metis list.set_intros)+
  have du: "dumped deep_env d = dumps_text d" for d
    by (simp add: dumped_def deep_env_def scenario_env_def)
  have nf: "no_faults deep_world" by (simp add: deep_world_def empty_world_def)
  have c: "map_of (blobs deep_world) (history_path ''telegram:42'')
             = Some (jsonl (map (dumped deep_env) [d0] @ deep_line # map (dumped deep_env) [d1]))"
    by (simp add: deep_world_def du d0_def d1_def)
  have bad: "json_loads deep_env deep_line = Inl RecursionError"
    by (simp add: deep_env_def)
  have lg: "log deep_world = []" by (simp add: deep_world_def empty_world_def)
  have r: "fst (get_chat_history deep_env ''telegram:42'' None deep_world) = Inr []
       \<and> log (snd (get_chat_history deep_env ''telegram:42'' None deep_world))
           = log deep_world @ [(ERROR, ''Error getting chat history'')]"
    using ok by (intro read_aborts[OF nf c _ _ deep_line_tight bad]) simp_all
  let ?ls = "[dumped deep_env d0, deep_line, dumped deep_env d1]"
  have t: "\<forall>s \<in> set ?ls. tight s" using ok deep_line_tight by (simp add: line_ok_tight)
  have lines: "log_lines (jsonl ?ls) = ?ls"
    unfolding log_lines_def using t by (intro read_lines) simp_all
  have sb: "strip s \<noteq> []" if "tight s" for s using that strip_tight[of s] by (auto simp: tight_def)
  have p: "parsed deep_env (dumped deep_env d0) = Some d0"
    "parsed deep_env (dumped deep_env d1) = Some d1"
    "parsed deep_env deep_line = None"
    using ok sb[OF line_ok_tight[OF ok(1)]] sb[OF line_ok_tight[OF ok(2)]] sb[OF deep_line_tight] bad
    by (simp_all add: parsed_def line_ok_loads)
  have bt: "blob_text deep_world (history_path ''telegram:42'') = jsonl ?ls"
    by (simp add: blob_text_def deep_world_def du d0_def d1_def)
  have "parsed_lines deep_env (jsonl ?ls) = [d0, d1]"
    by (simp add: parsed_lines_def lines List.map_filter_simps p)
  then show ?thesis using r lg bt td by simp
qed

text \<open>
  C5. \<open>save_chat_message\<close> never raises, and when the body of its \<open>try\<close> raises
  the error is logged; \<open>save_agent_action\<close> never raises, and when the body of
  its \<open>try\<close> raises it returns the empty string as action id and logs the error.
\<close>

theorem side_channels_never_raise:
  "fst (save_chat_message E k message_id role content metadata w) = Inr ()
   \<and> (\<forall>e. fst (save_chat_message_try E k message_id role content metadata w) = Inl e \<longrightarrow>
         log (snd (save_chat_message E k message_id role content metadata w))
           = log (snd (save_chat_message_try E k message_id role content metadata w))
             @ [(ERROR, ''Error saving chat message'')])
   \<and> (\<exists>action_id. fst (save_agent_action E k action_type action_data metadata w) = Inr action_id)
   \<and> (\<forall>e. fst (save_agent_action_try E k action_type action_data metadata w) = Inl e \<longrightarrow>
         fst (save_agent_action E k action_type action_data metadata w) = Inr []
         \<and> log (snd (save_agent_action E k action_type action_data metadata w))
           = log (snd (save_agent_action_try E k action_type action_data metadata w))
             @ [(ERROR, ''Error saving agent action'')])"
  by (auto simp: save_chat_message_def save_agent_action_def try_except_def logger_def
      io_bind_def io_return_def split: prod.splits sum.splits)

text \<open>A bucket whose second call fails.\<close>

theorem side_channels_never_raise_witness:
  "fst (save_chat_message_try (scenario_env []) ''telegram:42'' ''m1'' ''user'' (JStr ''hello'') None
          failing_world) = Inl GCSError
   \<and> fst (save_chat_message (scenario_env []) ''telegram:42'' ''m1'' ''user'' (JStr ''hello'') None
          failing_world) = Inr ()
   \<and> log (snd (save_chat_message (scenario_env []) ''telegram:42'' ''m1'' ''user'' (JStr ''hello'') None
          failing_world)) = [(ERROR, ''Error saving chat message'')]
   \<and> fst (save_agent_action_try (scenario_env []) ''telegram:42'' ''file_operation'' (JObj []) None
          failing_world) = Inl GCSError
   \<and> fst (save_agent_action (scenario_env []) ''telegram:42'' ''file_operation'' (JObj []) None
          failing_world) = Inr []"
proof -
  let ?E = "scenario_env []"
  have h1: "fst (save_chat_message_try ?E ''telegram:42'' ''m1'' ''user'' (JStr ''hello'') None
          failing_world) = Inl GCSError" by code_simp
  have h2: "fst (save_agent_action_try ?E ''telegram:42'' ''file_operation'' (JObj []) None
          failing_world) = Inl GCSError" by code_simp
  have l: "log (snd (save_chat_message_try ?E ''telegram:42'' ''m1'' ''user'' (JStr ''hello'') None
          failing_world)) = []" by code_simp
  from side_channels_never_raise[of ?E "''telegram:42''" "''m1''" "''user''" "JStr ''hello''" None
      failing_world "''file_operation''" "JObj []"] h1 h2 l
  show ?thesis by simp
qed

section \<open>Properties of the session record store\<close>

lemma map_of_dict_merge:
  "distinct (map fst b) \<Longrightarrow> map_of (dict_merge a b) = map_of a ++ map_of b"
proof (induction b arbitrary: a)
  case Nil
  then show ?case by (simp add: dict_merge_def)
next
  case (Cons x b)
  obtain k v where x: "x = (k, v)" by (cases x)
  have k: "map_of b k = None" using Cons.prems x by (simp add: map_of_eq_None_iff)
  have "map_of (dict_merge (AList.update k v a) b) = map_of (AList.update k v a) ++ map_of b"
    using Cons by simp
  then show ?case using x k
    by (auto simp: dict_merge_def update_conv' map_add_def fun_eq_iff split: option.splits)
qed

lemma get_session_stored:
  assumes "no_faults w" "map_of (blobs w) (session_json_path k) = Some s" "json_loads E s = Inr d"
  shows "get_session E k w = (Inr d, w\<lparr>faults := tl (tl (faults w))\<rparr>)"
  using assms
  by (simp add: get_session_def try_except_def io_bind_def Let_def blob_exists_ok
      blob_download_ok io_lift_def session_json_path_def)

lemma get_session_absent:
  assumes "no_faults w" "map_of (blobs w) (session_json_path k) = None"
  shows "get_session E k w = (Inr JNull, w\<lparr>faults := tl (faults w)\<rparr>)"
  using assms
  by (simp add: get_session_def try_except_def io_bind_def Let_def blob_exists_ok
      io_return_def session_json_path_def)

lemma create_session_ok:
  assumes nf: "no_faults w" and fresh: "map_of (blobs w) (session_json_path k) = None"
    and ok: "json_dumps_indent E (session_doc k uid (isoformat E (clock w)) (isoformat E (clock w))
                (case md of None \<Rightarrow> [] | Some x \<Rightarrow> x)) = Inr s"
  shows "\<exists>w'. create_or_update_session E k uid md w =
            (Inr (session_doc k uid (isoformat E (clock w)) (isoformat E (clock w))
                (case md of None \<Rightarrow> [] | Some x \<Rightarrow> x)), w')
          \<and> no_faults w' \<and> clock w' = Suc (clock w)
          \<and> map_of (blobs w') (session_json_path k) = Some s"
  using assms
  by (simp add: create_or_update_session_def try_except_def io_bind_def Let_def
      get_session_absent utcnow_isoformat_def io_return_def io_lift_def blob_upload_ok
      session_json_path_def session_doc_def update_conv')

lemma update_session_ok:
  assumes nf: "no_faults w"
    and cur: "map_of (blobs w) (session_json_path k) = Some s0"
             "json_loads E s0 = Inr (session_doc k u0 c t0 m)"
    and ok: "json_dumps_indent E (session_doc k uid c (isoformat E (clock w))
                (case md of None \<Rightarrow> m | Some x \<Rightarrow> dict_merge m x)) = Inr s"
  shows "\<exists>w'. create_or_update_session E k uid md w =
            (Inr (session_doc k uid c (isoformat E (clock w))
                (case md of None \<Rightarrow> m | Some x \<Rightarrow> dict_merge m x)), w')
          \<and> no_faults w' \<and> clock w' = Suc (clock w)
          \<and> map_of (blobs w') (session_json_path k) = Some s"
proof -
  have e: "dict_merge m [] = m" by (simp add: dict_merge_def)
  show ?thesis
    using assms e
    by (cases md)
       (auto simp add: create_or_update_session_def try_except_def io_bind_def Let_def
        get_session_stored utcnow_isoformat_def io_return_def io_lift_def blob_upload_ok
        session_json_path_def session_doc_def update_conv')
qed

lemma session_ok_dumps:
  "session_ok E d \<Longrightarrow> \<exists>s. json_dumps_indent E d = Inr s \<and> json_loads E s = Inr d"
  by (auto simp: session_ok_def split: sum.splits)

lemma spec_upserts_ne: "calls \<noteq> [] \<Longrightarrow> spec_upserts E k t cur calls \<noteq> []"
  by (cases calls; cases cur) (auto simp: Let_def)

lemma upsert_all_ok:
  assumes "no_faults w" "stored_session E k cur w" "calls \<noteq> []"
    and "\<forall>d \<in> set (spec_upserts E k (clock w) cur calls). session_ok E d"
  shows "\<exists>w' s. upsert_all E k calls w = (Inr (), w') \<and> no_faults w'
           \<and> map_of (blobs w') (session_json_path k) = Some s
           \<and> json_loads E s = Inr (last (spec_upserts E k (clock w) cur calls))"
  using assms
proof (induction calls arbitrary: w cur)
  case Nil
  then show ?case by simp
next
  case (Cons call rest)
  obtain uid md where call: "call = (uid, md)" by (cases call)
  define d1 where "d1 = hd (spec_upserts E k (clock w) cur (call # rest))"
  define cur' where "cur' = (case cur of
       None \<Rightarrow> (isoformat E (clock w), case md of None \<Rightarrow> [] | Some x \<Rightarrow> x)
     | Some (c, m) \<Rightarrow> (c, case md of None \<Rightarrow> m | Some x \<Rightarrow> dict_merge m x))"
  have docs: "spec_upserts E k (clock w) cur (call # rest)
                = d1 # spec_upserts E k (Suc (clock w)) (Some cur') rest"
    and d1: "d1 = (case cur of
        None \<Rightarrow> session_doc k uid (isoformat E (clock w)) (isoformat E (clock w)) (snd cur')
      | Some (c, m) \<Rightarrow> session_doc k uid c (isoformat E (clock w)) (snd cur'))"
    unfolding d1_def cur'_def using call by (cases cur; auto simp: Let_def)+
  have "session_ok E d1" using Cons.prems(4) docs by simp
  then obtain s where s: "json_dumps_indent E d1 = Inr s" "json_loads E s = Inr d1"
    using session_ok_dumps by blast
  have step: "\<exists>w1. create_or_update_session E k uid md w = (Inr d1, w1)
          \<and> no_faults w1 \<and> clock w1 = Suc (clock w)
          \<and> map_of (blobs w1) (session_json_path k) = Some s"
  proof (cases cur)
    case None
    then have "map_of (blobs w) (session_json_path k) = None"
      using Cons.prems(2) by (simp add: stored_session_def)
    from create_session_ok[OF Cons.prems(1) this, of E uid md s] s(1) d1 None
    show ?thesis by (simp add: cur'_def)
  next
    case (Some cm)
    obtain c m where cm: "cm = (c, m)" by (cases cm)
    then obtain s0 u0 t0 where
      "map_of (blobs w) (session_json_path k) = Some s0"
      "json_loads E s0 = Inr (session_doc k u0 c t0 m)"
      using Cons.prems(2) Some by (auto simp: stored_session_def)
    from update_session_ok[OF Cons.prems(1) this, of uid md s] s(1) d1 Some cm
    show ?thesis by (simp add: cur'_def)
  qed
  then obtain w1 where w1: "create_or_update_session E k uid md w = (Inr d1, w1)"
    "no_faults w1" "clock w1 = Suc (clock w)"
    "map_of (blobs w1) (session_json_path k) = Some s" by blast
  show ?case
  proof (cases "rest = []")
    case True
    then show ?thesis using w1 s call docs by (simp add: io_bind_def io_return_def)
  next
    case False
    have d1': "d1 = session_doc k uid (fst cur') (isoformat E (clock w)) (snd cur')"
      using d1 by (cases cur) (auto simp: cur'_def)
    have st: "stored_session E k (Some cur') w1"
      using w1(4) s(2) d1' by (cases cur') (auto simp: stored_session_def)
    have oks: "\<forall>d \<in> set (spec_upserts E k (clock w1) (Some cur') rest). session_ok E d"
      using Cons.prems(4) docs w1(3) by simp
    from Cons.IH[OF w1(2) st False oks]
    obtain w2 s2 where "upsert_all E k rest w1 = (Inr (), w2)" "no_faults w2"
      "map_of (blobs w2) (session_json_path k) = Some s2"
      "json_loads E s2 = Inr (last (spec_upserts E k (clock w1) (Some cur') rest))"
      by blast
    then show ?thesis using w1 call docs False spec_upserts_ne[OF False]
      by (simp add: io_bind_def)
  qed
qed

lemma spec_upserts_last_Some:
  assumes "calls \<noteq> []" "\<forall>c \<in> set calls. is_dict (snd c)"
  shows "\<exists>m. last (spec_upserts E k t (Some (c, m0)) calls)
              = session_doc k (fst (last calls)) c (isoformat E (t + length calls - 1)) m
           \<and> map_of m = fold (\<lambda>(user_id, metadata) acc.
                 acc ++ map_of (case metadata of None \<Rightarrow> [] | Some x \<Rightarrow> x)) calls (map_of m0)"
  using assms
proof (induction calls arbitrary: t m0)
  case Nil
  then show ?case by simp
next
  case (Cons call rest)
  obtain uid md where call: "call = (uid, md)" by (cases call)
  define m' where "m' = (case md of None \<Rightarrow> m0 | Some x \<Rightarrow> dict_merge m0 x)"
  have dm: "is_dict md" using Cons.prems(2) call by simp
  have mm: "map_of m' = map_of m0 ++ map_of (case md of None \<Rightarrow> [] | Some x \<Rightarrow> x)"
    using dm by (cases md) (auto simp: m'_def is_dict_def map_of_dict_merge)
  show ?case
  proof (cases "rest = []")
    case True
    then show ?thesis using call mm by (auto simp: Let_def m'_def)
  next
    case False
    from Cons.IH[OF False, of "Suc t" m'] Cons.prems(2)
    obtain m where "last (spec_upserts E k (Suc t) (Some (c, m')) rest)
              = session_doc k (fst (last rest)) c (isoformat E (Suc t + length rest - 1)) m"
      "map_of m = fold (\<lambda>(user_id, metadata) acc.
                 acc ++ map_of (case metadata of None \<Rightarrow> [] | Some x \<Rightarrow> x)) rest (map_of m')"
      by auto
    then show ?thesis using call mm False spec_upserts_ne[OF False, of E k "Suc t" "Some (c, m')"]
      by (auto simp: Let_def m'_def[symmetric])
  qed
qed

lemma spec_upserts_last:
  assumes "calls \<noteq> []" "\<forall>c \<in> set calls. is_dict (snd c)"
  shows "\<exists>m. last (spec_upserts E k t None calls)
              = session_doc k (fst (last calls)) (isoformat E t) (isoformat E (t + length calls - 1)) m
           \<and> map_of m = metadata_union calls"
proof -
  obtain uid md rest where calls: "calls = (uid, md) # rest" using assms(1) by (cases calls) auto
  define m0 where "m0 = (case md of None \<Rightarrow> [] | Some x \<Rightarrow> x)"
  show ?thesis
  proof (cases "rest = []")
    case True
    then show ?thesis using calls by (auto simp: Let_def metadata_union_def)
  next
    case False
    from spec_upserts_last_Some[OF False, of E k "Suc t" "isoformat E t" m0] assms(2) calls
    obtain m where "last (spec_upserts E k (Suc t) (Some (isoformat E t, m0)) rest)
              = session_doc k (fst (last rest)) (isoformat E t) (isoformat E (Suc t + length rest - 1)) m"
      "map_of m = fold (\<lambda>(user_id, metadata) acc.
                 acc ++ map_of (case metadata of None \<Rightarrow> [] | Some x \<Rightarrow> x)) rest (map_of m0)"
      by auto
    then show ?thesis
      using calls False spec_upserts_ne[OF False, of E k "Suc t" "Some (isoformat E t, m0)"]
      by (auto simp: Let_def metadata_union_def m0_def[symmetric])
  qed
qed

text \<open>
  C2. On a session key that has no record yet, with a bucket that answers every call,
  metadata arguments that are dictionaries and records that the \<open>json\<close> library
  writes and reads back, after any sequence of upserts (one at least) \<open>get_session\<close>
  returns a record whose metadata is the shallow union of the metadata arguments,
  a later call overriding the same key of an earlier one and the other keys
  surviving; \<open>created_at\<close> is the time of the first upsert, \<open>updated_at\<close> the
  time of the last one, and \<open>user_id\<close> the user of the last one.
\<close>

theorem upsert_then_get:
  assumes "map_of (blobs w) (session_json_path k) = None"
    and "no_faults w"
    and "calls \<noteq> []"
    and "\<forall>c \<in> set calls. is_dict (snd c)"
    and "\<forall>d \<in> set (spec_upserts E k (clock w) None calls). session_ok E d"
  shows "\<exists>m. fst (get_session E k (snd (upsert_all E k calls w)))
              = Inr (session_doc k (fst (last calls)) (isoformat E (clock w))
                       (isoformat E (clock w + length calls - 1)) m)
            \<and> map_of m = metadata_union calls"
proof -
  have st: "stored_session E k None w" using assms(1) by (simp add: stored_session_def)
  from upsert_all_ok[OF assms(2) st assms(3,5)]
  obtain w' s where w': "upsert_all E k calls w = (Inr (), w')" "no_faults w'"
    "map_of (blobs w') (session_json_path k) = Some s"
    "json_loads E s = Inr (last (spec_upserts E k (clock w) None calls))" by blast
  from spec_upserts_last[OF assms(3,4), of E k "clock w"]
  obtain m where m: "last (spec_upserts E k (clock w) None calls)
              = session_doc k (fst (last calls)) (isoformat E (clock w))
                       (isoformat E (clock w + length calls - 1)) m"
    "map_of m = metadata_union calls" by blast
  have "get_session E k w' = (Inr (last (spec_upserts E k (clock w) None calls)),
                               w'\<lparr>faults := tl (tl (faults w'))\<rparr>)"
    using get_session_stored[OF w'(2,3,4)] .
  then show ?thesis using w'(1) m by auto
qed

text \<open>Three upserts: the second overrides \<open>lang\<close>, the third has no metadata.\<close>

theorem upsert_then_get_witness:
  "(\<exists>m. fst (get_session (scenario_env three_sessions) ''telegram:42''
              (snd (upsert_all (scenario_env three_sessions) ''telegram:42'' three_upserts empty_world)))
          = Inr (session_doc ''telegram:42'' ''7'' ''2024-01-01T00:00:0'' ''2024-01-01T00:00:2'' m)
        \<and> map_of m = metadata_union three_upserts)
   \<and> metadata_union three_upserts ''lang'' = Some (JStr ''fr'')
   \<and> metadata_union three_upserts ''chat_type'' = Some (JStr ''private'')"
proof -
  let ?E = "scenario_env three_sessions"
  have h1: "map_of (blobs empty_world) (session_json_path ''telegram:42'') = None" by code_simp
  have h2: "no_faults empty_world" by code_simp
  have h3: "three_upserts \<noteq> []" by code_simp
  have h4: "\<forall>c \<in> set three_upserts. is_dict (snd c)" by code_simp
  have h5: "\<forall>d \<in> set (spec_upserts ?E ''telegram:42'' (clock empty_world) None three_upserts).
              session_ok ?E d" by code_simp
  have e: "fst (last three_upserts) = ''7''"
    "isoformat ?E (clock empty_world) = ''2024-01-01T00:00:0''"
    "isoformat ?E (clock empty_world + length three_upserts - 1) = ''2024-01-01T00:00:2''"
    by code_simp+
  have u: "metadata_union three_upserts ''lang'' = Some (JStr ''fr'')"
    "metadata_union three_upserts ''chat_type'' = Some (JStr ''private'')"
    by (simp_all add: metadata_union_def three_upserts_def)
  from upsert_then_get[OF h1 h2 h3 h4 h5] e u show ?thesis by simp
qed

section \<open>Properties of the gateway\<close>

lemma io_bind_lift_Inr [simp]: "io_bind (io_lift (Inr x)) f = f x"
  by (simp add: io_bind_def io_lift_def)

lemma io_bind_lift_Inl [simp]: "io_bind (io_lift (Inl e)) f = io_raise e"
  by (simp add: io_bind_def io_lift_def io_raise_def fun_eq_iff)

lemma io_bind_return [simp]: "io_bind (io_return x) f = f x"
  by (simp add: io_bind_def io_return_def)

lemma io_bind_raise [simp]: "io_bind (io_raise e) f = io_raise e"
  by (simp add: io_bind_def io_raise_def fun_eq_iff)

lemma io_bind_logger:
  "io_bind (logger lvl msg) f w = f () (w\<lparr>log := log w @ [(lvl, msg)]\<rparr>)"
  by (simp add: io_bind_def logger_def)

lemma process_message_allow [simp]:
  "process_message E (G\<lparr>allow_from := L\<rparr>) = process_message E G"
  by (simp add: process_message_def agent_process_direct_def fun_eq_iff cong: if_cong)

lemma send_response_allow [simp]:
  "send_response (G\<lparr>allow_from := L\<rparr>) = send_response G"
  by (simp add: send_response_def telegram_send_def fun_eq_iff cong: if_cong)

lemma handle_inbound:
  assumes "inbound E update = Some (message, chat, cid, uid, text)"
  shows "handle_telegram_webhook E G update w =
     (if allow_from G \<noteq> [] \<and> uid \<notin> set (allow_from G)
      then (Inr (JObj [(''ok'', JBool True), (''handled'', JBool False),
                       (''error'', JStr ''User not allowed'')]),
            w\<lparr>log := log w @ [(WARNING, ''User not in allowed list'')]\<rparr>)
      else try_except
             (io_bind (process_message E G message chat cid uid text) (send_response G cid))
             (on_error E) w)"
  using assms
  unfolding on_error_def
  apply (simp add: handle_telegram_webhook_def inbound_def Let_def
      split: sum.splits if_splits)
   apply (auto simp: try_except_def io_bind_logger io_return_def)
  done

lemma handle_not_inbound:
  assumes "inbound E update = None"
  shows "\<not> handled (case fst (handle_telegram_webhook E G update w) of Inr res \<Rightarrow> res | Inl _ \<Rightarrow> JNull)"
  using assms
  apply (simp add: handle_telegram_webhook_def inbound_def Let_def split: sum.splits if_splits)
          apply (auto simp: try_except_def io_bind_logger io_return_def io_raise_def handled_def)
  done

lemma io_bind_InrE:
  assumes "io_bind m f w = (Inr y, w')"
  obtains x w1 where "m w = (Inr x, w1)" "f x w1 = (Inr y, w')"
  using assms by (auto simp: io_bind_def split: prod.splits sum.splits)

lemma process_message_reply:
  assumes "process_message E G message chat cid uid text w = (Inr r, w1)"
  shows "\<exists>fs fs'. process_direct G text (''telegram:'' @ cid) fs = Inr (r, fs')"
  using assms
  unfolding process_message_def Let_def
  apply (elim io_bind_InrE)
  apply (auto simp: agent_process_direct_def io_return_def split: sum.splits prod.splits)
  done

lemma telegram_send_result:
  "\<exists>w2. telegram_send G cid text w = (Inr (), w2) \<and> blobs w2 = blobs w \<and> files w2 = files w
     \<and> dirs w2 = dirs w \<and> faults w2 = faults w \<and> clock w2 = clock w
     \<and> uuid_count w2 = uuid_count w \<and> outbox w2 = outbox w @ [(cid, text)]
     \<and> (telegram_post G (''https://api.telegram.org/bot'' @ token G @ ''/sendMessage'') cid text
            \<in> {PostTimeout, PostHTTPStatusError, PostFailed}
          \<longrightarrow> log w2 \<noteq> [] \<and> fst (last (log w2)) = ERROR)"
  by (auto simp: telegram_send_def Let_def logger_def split: post_outcome.splits sum.splits)

lemma send_response_handled:
  assumes "send_response G cid r w1 = (Inr res, w')" "handled res"
  shows "token G \<noteq> [] \<and>
     res = JObj [(''ok'', JBool True), (''handled'', JBool True), (''response'', JStr (reply_text r))]
     \<and> (\<exists>w0. telegram_send G cid (reply_text r) w0 = (Inr (), w')
            \<and> blobs w0 = blobs w1 \<and> files w0 = files w1 \<and> outbox w0 = outbox w1)"
proof -
  define w0 where "w0 = (if r = [] \<or> strip r = []
      then w1\<lparr>log := log w1 @ [(WARNING, ''No response generated'')]\<rparr> else w1)"
  have w0: "blobs w0 = blobs w1" "files w0 = files w1" "outbox w0 = outbox w1"
    by (simp_all add: w0_def)
  have sr: "send_response G cid r w1 =
      (if token G = []
       then io_bind (logger ERROR ''Telegram bot token not found in config'') (\<lambda>_.
              io_return (JObj [(''ok'', JBool False),
                               (''error'', JStr ''Telegram bot token not configured'')]))
       else io_bind (telegram_send G cid (reply_text r)) (\<lambda>_.
              io_return (JObj [(''ok'', JBool True), (''handled'', JBool True),
                               (''response'', JStr (reply_text r))]))) w0"
    by (simp add: send_response_def Let_def reply_text_def w0_def io_bind_logger)
  have tok: "token G \<noteq> []"
  proof
    assume "token G = []"
    then have "res = JObj [(''ok'', JBool False),
                           (''error'', JStr ''Telegram bot token not configured'')]"
      using sr assms(1) by (simp add: io_bind_logger io_return_def)
    then show False using assms(2) by (simp add: handled_def)
  qed
  obtain w2 where w2: "telegram_send G cid (reply_text r) w0 = (Inr (), w2)"
    using telegram_send_result[of G cid "reply_text r" w0] by blast
  have "send_response G cid r w1 =
      (Inr (JObj [(''ok'', JBool True), (''handled'', JBool True),
                  (''response'', JStr (reply_text r))]), w2)"
    using sr tok w2 by (simp add: io_bind_def io_return_def)
  then show ?thesis using assms(1) tok w2 w0 by auto
qed

lemma handled_run:
  assumes "handle_telegram_webhook E G update w = (Inr res, w')" "handled res"
  obtains message chat cid uid tx r w1 where
    "inbound E update = Some (message, chat, cid, uid, tx)"
    "\<not> (allow_from G \<noteq> [] \<and> uid \<notin> set (allow_from G))"
    "process_message E G message chat cid uid tx w = (Inr r, w1)"
    "send_response G cid r w1 = (Inr res, w')"
proof (cases "inbound E update")
  case None
  from handle_not_inbound[OF None, of G w] assms show ?thesis by simp
next
  case (Some tup)
  obtain message chat cid uid tx where tup: "tup = (message, chat, cid, uid, tx)"
    by (cases tup)
  note hi = handle_inbound[OF Some[unfolded tup], of G w]
  show ?thesis
  proof (cases "allow_from G \<noteq> [] \<and> uid \<notin> set (allow_from G)")
    case True
    then show ?thesis using hi assms by (auto simp: handled_def)
  next
    case False
    have "handle_telegram_webhook E G update w = try_except
             (io_bind (process_message E G message chat cid uid tx) (send_response G cid))
             (on_error E) w" using hi False by (simp only: if_False if_not_P)
    then have eq: "try_except
             (io_bind (process_message E G message chat cid uid tx) (send_response G cid))
             (on_error E) w = (Inr res, w')" using assms(1) by simp
    obtain pr w1 where p: "process_message E G message chat cid uid tx w = (pr, w1)"
      by (cases "process_message E G message chat cid uid tx w")
    show ?thesis
    proof (cases pr)
      case (Inl e)
      then show ?thesis using eq p assms(2)
        by (auto simp: try_except_def io_bind_def on_error_def logger_def io_return_def handled_def)
    next
      case (Inr r)
      obtain sr w2 where s: "send_response G cid r w1 = (sr, w2)"
        by (cases "send_response G cid r w1")
      show ?thesis
      proof (cases sr)
        case (Inl e)
        then show ?thesis using eq p Inr s assms(2)
          by (auto simp: try_except_def io_bind_def on_error_def logger_def io_return_def handled_def)
      next
        case (Inr res')
        then have "res' = res" "w2 = w'" using eq p \<open>pr = Inr r\<close> s
          by (auto simp: try_except_def io_bind_def)
        then show ?thesis using that[OF Some[unfolded tup] False] p \<open>pr = Inr r\<close> s Inr by simp
      qed
    qed
  qed
qed

lemma process_message_post [simp]:
  "process_message E (G\<lparr>telegram_post := p\<rparr>) = process_message E G"
  by (simp add: process_message_def agent_process_direct_def fun_eq_iff cong: if_cong)

lemma inbound_of_message:
  assumes "update_message update = Inr (JObj m)"
    and "py_get (JObj m) ''from'' (JObj []) = Inr (JObj f)"
    and "map_of f ''id'' = Some user_id"
    and "py_get (JObj m) ''chat'' (JObj []) = Inr (JObj c)"
    and "py_get (JObj m) ''text'' (JStr []) = Inr (JStr t)"
  shows "inbound E update = Some (JObj m, JObj c,
           py_str E (case map_of c ''id'' of None \<Rightarrow> JNull | Some v \<Rightarrow> v),
           py_str E user_id, JStr t)"
proof -
  have m: "truthy (JObj m)" using assms(2,3) by auto
  obtain m1 where m1: "py_get update ''message'' JNull = Inr m1"
    and m2: "(if truthy m1 then Inr m1 else py_get update ''edited_message'' JNull) = Inr (JObj m)"
    using assms(1) by (auto simp: update_message_def split: sum.splits)
  have c: "py_get (JObj c) ''id'' JNull = Inr (case map_of c ''id'' of None \<Rightarrow> JNull | Some v \<Rightarrow> v)"
    by simp
  have f: "py_get (JObj f) ''id'' JNull = Inr user_id" using assms(3) by simp
  show ?thesis
    unfolding inbound_def
    by (simp only: m1 m2 assms(2,4,5) c f m sum.case py_slice_check.simps if_False not_True_eq_False)
qed

lemma send_response_not_gate:
  "fst (send_response G cid r w) \<noteq> Inr not_allowed"
proof -
  define w0 where "w0 = (if r = [] \<or> strip r = []
      then w\<lparr>log := log w @ [(WARNING, ''No response generated'')]\<rparr> else w)"
  have sr: "send_response G cid r w =
      (if token G = []
       then io_bind (logger ERROR ''Telegram bot token not found in config'') (\<lambda>_.
              io_return (JObj [(''ok'', JBool False),
                               (''error'', JStr ''Telegram bot token not configured'')]))
       else io_bind (telegram_send G cid (reply_text r)) (\<lambda>_.
              io_return (JObj [(''ok'', JBool True), (''handled'', JBool True),
                               (''response'', JStr (reply_text r))]))) w0"
    by (simp add: send_response_def Let_def reply_text_def w0_def io_bind_logger)
  show ?thesis
  proof (cases "token G = []")
    case True
    then show ?thesis unfolding sr
      by (simp add: io_bind_logger io_return_def not_allowed_def)
  next
    case False
    obtain w2 where "telegram_send G cid (reply_text r) w0 = (Inr (), w2)"
      using telegram_send_result[of G cid "reply_text r" w0] by (elim exE conjE)
    then show ?thesis using False unfolding sr
      by (simp add: io_bind_def io_return_def not_allowed_def)
  qed
qed

lemma pipeline_not_gate:
  "fst (try_except (io_bind m (send_response G cid)) (on_error E) w) \<noteq> Inr not_allowed"
proof (cases "m w")
  case (Pair r w1)
  show ?thesis
  proof (cases r)
    case (Inl e)
    then show ?thesis using Pair
      by (simp add: try_except_def io_bind_def on_error_def logger_def io_return_def not_allowed_def)
  next
    case (Inr x)
    obtain s w2 where s: "send_response G cid x w1 = (s, w2)" by (cases "send_response G cid x w1")
    then have "s \<noteq> Inr not_allowed" using send_response_not_gate[of G cid x w1] by simp
    then show ?thesis using Pair Inr s
      by (cases s) (simp_all add: try_except_def io_bind_def on_error_def logger_def io_return_def
          not_allowed_def)
  qed
qed

text \<open>
  C3. For an update whose message (\<open>message\<close>, or \<open>edited_message\<close> when there is
  no \<open>message\<close>) is an object with a \<open>from\<close> object that carries an \<open>id\<close>, a
  \<open>chat\<close> that is an object or is missing, and a \<open>text\<close> that is a string or is
  missing. When the allow-list is not empty and the user id is not on it, the handler
  returns \<open>{"ok": true, "handled": false, "error": "User not allowed"}\<close> and leaves
  the world as it was but for one warning in the log: no object of the bucket and no
  file is touched. When the allow-list is empty or holds the user id, the handler is
  the run of the rest of the method on the message, the session is loaded, the user
  message is appended, the agent is called and the reply is sent, and its result is
  not \<open>User not allowed\<close>.
\<close>

theorem allow_list_gate:
  assumes "update_message update = Inr (JObj m)"
    and "py_get (JObj m) ''from'' (JObj []) = Inr (JObj f)"
    and "map_of f ''id'' = Some user_id"
    and "py_get (JObj m) ''chat'' (JObj []) = Inr (JObj c)"
    and "py_get (JObj m) ''text'' (JStr []) = Inr (JStr t)"
    and "chat_id = py_str E (case map_of c ''id'' of None \<Rightarrow> JNull | Some v \<Rightarrow> v)"
  shows "(allow_from G \<noteq> [] \<and> py_str E user_id \<notin> set (allow_from G) \<longrightarrow>
            handle_telegram_webhook E G update w =
              (Inr not_allowed, w\<lparr>log := log w @ [(WARNING, ''User not in allowed list'')]\<rparr>))
       \<and> (allow_from G = [] \<or> py_str E user_id \<in> set (allow_from G) \<longrightarrow>
            handle_telegram_webhook E G update w =
              try_except
                (io_bind (process_message E G (JObj m) (JObj c) chat_id (py_str E user_id) (JStr t))
                   (send_response G chat_id))
                (on_error E) w
            \<and> fst (handle_telegram_webhook E G update w) \<noteq> Inr not_allowed)"
proof -
  note ib = inbound_of_message[OF assms(1-5), of E, folded assms(6)]
  note hi = handle_inbound[OF ib, of G w]
  show ?thesis
  proof (cases "allow_from G \<noteq> [] \<and> py_str E user_id \<notin> set (allow_from G)")
    case True
    then show ?thesis using hi by (simp add: not_allowed_def)
  next
    case False
    then have eq: "handle_telegram_webhook E G update w =
              try_except
                (io_bind (process_message E G (JObj m) (JObj c) chat_id (py_str E user_id) (JStr t))
                   (send_response G chat_id))
                (on_error E) w" using hi by (simp only: if_False if_not_P)
    have ne: "fst (handle_telegram_webhook E G update w) \<noteq> Inr not_allowed"
      unfolding eq by (rule pipeline_not_gate)
    show ?thesis
    proof (intro conjI impI)
      assume a: "allow_from G \<noteq> [] \<and> py_str E user_id \<notin> set (allow_from G)"
      show "handle_telegram_webhook E G update w =
              (Inr not_allowed, w\<lparr>log := log w @ [(WARNING, ''User not in allowed list'')]\<rparr>)"
        by (rule notE[OF False a])
    next
      show "handle_telegram_webhook E G update w =
              try_except
                (io_bind (process_message E G (JObj m) (JObj c) chat_id (py_str E user_id) (JStr t))
                   (send_response G chat_id))
                (on_error E) w" by (rule eq)
    next
      show "fst (handle_telegram_webhook E G update w) \<noteq> Inr not_allowed" by (rule ne)
    qed
  qed
qed


text \<open>
  C6. When a run returns a handled result, the result has the shape
  \<open>{"ok": true, "handled": true, "response": reply}\<close>, and the same update in the
  same world with a Telegram API that comes to any other outcome (a timeout, an
  HTTP error status, another failure of the transport) returns the same result
  and leaves the same objects in the bucket, the same files and the same outbox;
  when the outcome is one of the failures, the last entry of the log is an error.
\<close>

theorem delivery_failure_not_fatal:
  assumes "handle_telegram_webhook E G update w = (Inr res, w')" and "handled res"
  shows "\<exists>reply w''.
           res = JObj [(''ok'', JBool True), (''handled'', JBool True), (''response'', JStr reply)]
         \<and> handle_telegram_webhook E (G\<lparr>telegram_post := (\<lambda>url chat_id text. outcome)\<rparr>) update w
             = (Inr res, w'')
         \<and> blobs w'' = blobs w' \<and> files w'' = files w' \<and> outbox w'' = outbox w'
         \<and> (outcome \<in> {PostTimeout, PostHTTPStatusError, PostFailed}
              \<longrightarrow> log w'' \<noteq> [] \<and> fst (last (log w'')) = ERROR)"
proof -
  let ?G = "G\<lparr>telegram_post := (\<lambda>url chat_id text. outcome)\<rparr>"
  obtain message chat cid uid tx r w1 where run:
    "inbound E update = Some (message, chat, cid, uid, tx)"
    "\<not> (allow_from G \<noteq> [] \<and> uid \<notin> set (allow_from G))"
    "process_message E G message chat cid uid tx w = (Inr r, w1)"
    "send_response G cid r w1 = (Inr res, w')"
    by (rule handled_run[OF assms])
  have sr0: "token G \<noteq> []"
    "res = JObj [(''ok'', JBool True), (''handled'', JBool True), (''response'', JStr (reply_text r))]"
    "\<exists>w0. telegram_send G cid (reply_text r) w0 = (Inr (), w')
            \<and> blobs w0 = blobs w1 \<and> files w0 = files w1 \<and> outbox w0 = outbox w1"
    using send_response_handled[OF run(4) assms(2)] by simp_all
  then obtain w0 where sr3: "telegram_send G cid (reply_text r) w0 = (Inr (), w')"
    and sr456: "blobs w0 = blobs w1" "files w0 = files w1" "outbox w0 = outbox w1"
    by (elim exE conjE)
  note sr = sr0(1,2) sr3 sr456
  define v0 where "v0 = (if r = [] \<or> strip r = []
      then w1\<lparr>log := log w1 @ [(WARNING, ''No response generated'')]\<rparr> else w1)"
  have v0: "blobs v0 = blobs w1" "files v0 = files w1" "outbox v0 = outbox w1"
    by (simp_all add: v0_def)
  have tp: "telegram_post ?G u c t = outcome" for u c t by simp
  obtain w2 where w2: "telegram_send ?G cid (reply_text r) v0 = (Inr (), w2)"
    "blobs w2 = blobs v0" "files w2 = files v0" "outbox w2 = outbox v0 @ [(cid, reply_text r)]"
    "outcome \<in> {PostTimeout, PostHTTPStatusError, PostFailed}
       \<longrightarrow> log w2 \<noteq> [] \<and> fst (last (log w2)) = ERROR"
    using telegram_send_result[of ?G cid "reply_text r" v0] unfolding tp
    by (elim exE conjE) (rule that)
  have "\<exists>w2. telegram_send G cid (reply_text r) w0 = (Inr (), w2)
          \<and> blobs w2 = blobs w0 \<and> files w2 = files w0
          \<and> outbox w2 = outbox w0 @ [(cid, reply_text r)]"
    using telegram_send_result[of G cid "reply_text r" w0] by (elim exE conjE) (intro exI conjI)
  then have w': "blobs w' = blobs w0" "files w' = files w0"
    "outbox w' = outbox w0 @ [(cid, reply_text r)]"
    using sr(3) by simp_all
  have tok: "token ?G = token G" by simp
  have "send_response ?G cid r w1 =
        io_bind (telegram_send ?G cid (reply_text r)) (\<lambda>_.
          io_return (JObj [(''ok'', JBool True), (''handled'', JBool True),
                           (''response'', JStr (reply_text r))])) v0"
    using sr(1) unfolding send_response_def Let_def tok
    by (simp add: reply_text_def v0_def io_bind_logger)
  then have s2: "send_response ?G cid r w1 = (Inr res, w2)"
    using w2(1) sr(2) by (simp add: io_bind_def io_return_def)
  have al: "allow_from ?G = allow_from G" by simp
  have "handle_telegram_webhook E ?G update w =
        try_except (io_bind (process_message E ?G message chat cid uid tx) (send_response ?G cid))
          (on_error E) w"
    using handle_inbound[OF run(1), of ?G w] run(2) unfolding al by (simp only: if_not_P if_False)
  then have "handle_telegram_webhook E ?G update w = (Inr res, w2)"
    using run(3) s2 by (simp add: try_except_def io_bind_def)
  then show ?thesis using sr(2) w2(2-5) w' v0 sr(4,5,6)
    by (intro exI[of _ "reply_text r"] exI[of _ w2]) simp
qed

text \<open>
  The update of the scenario and an edited message without chat and text, with user 7
  off the allow-list; the update of the scenario with an empty allow-list and with
  user 7 on the allow-list.
\<close>

theorem allow_list_gate_witness:
  "handle_telegram_webhook (scenario_env []) (scenario_gateway [''8''] ''hi there'' ok_response)
      scenario_update empty_world
     = (Inr not_allowed, empty_world\<lparr>log := [(WARNING, ''User not in allowed list'')]\<rparr>)
   \<and> handle_telegram_webhook (scenario_env []) (scenario_gateway [''8''] ''hi there'' ok_response)
      bare_update empty_world
     = (Inr not_allowed, empty_world\<lparr>log := [(WARNING, ''User not in allowed list'')]\<rparr>)
   \<and> fst (handle_telegram_webhook (scenario_env []) (scenario_gateway [] ''hi there'' ok_response)
            scenario_update empty_world)
     = Inr (JObj [(''ok'', JBool True), (''handled'', JBool True), (''response'', JStr ''hi there'')])
   \<and> fst (handle_telegram_webhook (scenario_env []) (scenario_gateway [''7''] ''hi there'' ok_response)
            scenario_update empty_world)
     = Inr (JObj [(''ok'', JBool True), (''handled'', JBool True), (''response'', JStr ''hi there'')])"
proof -
  let ?E = "scenario_env []"
  let ?c = "[(''id'', JInt 42), (''type'', JStr ''private'')]"
  let ?f = "[(''id'', JInt 7)]"
  let ?m = "[(''chat'', JObj ?c), (''from'', JObj ?f), (''text'', JStr ''hello'')]"
  let ?b = "[(''from'', JObj ?f)]"
  let ?Gx = "scenario_gateway [''8''] ''hi there'' ok_response"
  let ?Ge = "scenario_gateway [] ''hi there'' ok_response"
  let ?Gl = "scenario_gateway [''7''] ''hi there'' ok_response"
  let ?res = "JObj [(''ok'', JBool True), (''handled'', JBool True), (''response'', JStr ''hi there'')]"
  have h1: "update_message scenario_update = Inr (JObj ?m)"
    by (simp add: update_message_def scenario_update_def)
  have h2: "py_get (JObj ?m) ''from'' (JObj []) = Inr (JObj ?f)" by simp
  have h3: "map_of ?f ''id'' = Some (JInt 7)" by simp
  have h4: "py_get (JObj ?m) ''chat'' (JObj []) = Inr (JObj ?c)" by simp
  have h5: "py_get (JObj ?m) ''text'' (JStr []) = Inr (JStr ''hello'')" by simp
  have h6: "''42'' = py_str ?E (case map_of ?c ''id'' of None \<Rightarrow> JNull | Some v \<Rightarrow> v)"
    by code_simp
  have b1: "update_message bare_update = Inr (JObj ?b)"
    by (simp add: update_message_def bare_update_def)
  have b2: "py_get (JObj ?b) ''from'' (JObj []) = Inr (JObj ?f)" by simp
  have b4: "py_get (JObj ?b) ''chat'' (JObj []) = Inr (JObj [])" by simp
  have b5: "py_get (JObj ?b) ''text'' (JStr []) = Inr (JStr [])" by simp
  have b6: "''None'' = py_str ?E (case map_of [] ''id'' of None \<Rightarrow> JNull | Some v \<Rightarrow> v)"
    by code_simp
  have s: "py_str ?E (JInt 7) = ''7''" by code_simp
  have a: "allow_from ?Gx = [''8'']" "allow_from ?Ge = []" "allow_from ?Gl = [''7'']"
    by (simp_all add: scenario_gateway_def)
  have l: "log empty_world = []" by (simp add: empty_world_def)
  have off: "allow_from ?Gx \<noteq> [] \<and> py_str ?E (JInt 7) \<notin> set (allow_from ?Gx)"
    by (simp add: a s)
  have on: "allow_from ?Ge = [] \<or> py_str ?E (JInt 7) \<in> set (allow_from ?Ge)"
    "allow_from ?Gl = [] \<or> py_str ?E (JInt 7) \<in> set (allow_from ?Gl)"
    by (simp_all add: a s)
  note g = allow_list_gate[OF h1 h2 h3 h4 h5 h6]
  note gb = allow_list_gate[OF b1 b2 h3 b4 b5 b6]
  have 1: "handle_telegram_webhook ?E ?Gx scenario_update empty_world
     = (Inr not_allowed, empty_world\<lparr>log := [(WARNING, ''User not in allowed list'')]\<rparr>)"
    using g[of ?Gx empty_world, THEN conjunct1, THEN mp, OF off] by (simp add: l)
  have 2: "handle_telegram_webhook ?E ?Gx bare_update empty_world
     = (Inr not_allowed, empty_world\<lparr>log := [(WARNING, ''User not in allowed list'')]\<rparr>)"
    using gb[of ?Gx empty_world, THEN conjunct1, THEN mp, OF off] by (simp add: l)
  have p: "fst (try_except
                  (io_bind (process_message ?E ?Ge (JObj ?m) (JObj ?c) ''42'' (py_str ?E (JInt 7))
                              (JStr ''hello''))
                     (send_response ?Ge ''42''))
                  (on_error ?E) empty_world) = Inr ?res"
    "fst (try_except
                  (io_bind (process_message ?E ?Gl (JObj ?m) (JObj ?c) ''42'' (py_str ?E (JInt 7))
                              (JStr ''hello''))
                     (send_response ?Gl ''42''))
                  (on_error ?E) empty_world) = Inr ?res"
    by code_simp+
  have 3: "fst (handle_telegram_webhook ?E ?Ge scenario_update empty_world) = Inr ?res"
    unfolding g[of ?Ge empty_world, THEN conjunct2, THEN mp, OF on(1), THEN conjunct1]
    by (rule p(1))
  have 4: "fst (handle_telegram_webhook ?E ?Gl scenario_update empty_world) = Inr ?res"
    unfolding g[of ?Gl empty_world, THEN conjunct2, THEN mp, OF on(2), THEN conjunct1]
    by (rule p(2))
  show ?thesis by (intro conjI) (rule 1, rule 2, rule 3, rule 4)
qed

text \<open>The scenario with a Telegram API that times out.\<close>

theorem delivery_failure_not_fatal_witness:
  "\<exists>w''. handle_telegram_webhook (scenario_env [])
            ((scenario_gateway [''7''] ''hi there'' ok_response)
               \<lparr>telegram_post := (\<lambda>url chat_id text. PostTimeout)\<rparr>)
            scenario_update empty_world
          = (Inr (JObj [(''ok'', JBool True), (''handled'', JBool True),
                        (''response'', JStr ''hi there'')]), w'')
        \<and> blobs w'' = blobs (snd (handle_telegram_webhook (scenario_env [])
                                  (scenario_gateway [''7''] ''hi there'' ok_response)
                                  scenario_update empty_world))
        \<and> log w'' \<noteq> [] \<and> fst (last (log w'')) = ERROR"
proof -
  let ?E = "scenario_env []"
  let ?G = "scenario_gateway [''7''] ''hi there'' ok_response"
  let ?res = "JObj [(''ok'', JBool True), (''handled'', JBool True), (''response'', JStr ''hi there'')]"
  have "fst (handle_telegram_webhook ?E ?G scenario_update empty_world) = Inr ?res"
    by code_simp
  then have h1: "handle_telegram_webhook ?E ?G scenario_update empty_world
                  = (Inr ?res, snd (handle_telegram_webhook ?E ?G scenario_update empty_world))"
    by (simp add: prod_eq_iff)
  have h2: "handled ?res" by code_simp
  from delivery_failure_not_fatal[OF h1 h2, of PostTimeout]
  show ?thesis by auto
qed


section \<open>Properties of the workspace synchroniser\<close>

lemma join_slash_Cons2: "r \<noteq> [] \<Longrightarrow> join_slash (c # r) = c @ CHR ''/'' # join_slash r"
  by (cases r) auto

lemma split_join_slash:
  "r \<noteq> [] \<Longrightarrow> \<forall>c \<in> set r. CHR ''/'' \<notin> set c \<Longrightarrow> split_on CHR ''/'' (join_slash r) = r"
proof (induction r)
  case Nil
  then show ?case by simp
next
  case (Cons c r)
  show ?case
  proof (cases "r = []")
    case True
    then show ?thesis using Cons.prems by (simp add: split_on_last)
  next
    case False
    then show ?thesis using Cons by (simp add: join_slash_Cons2 split_on_line)
  qed
qed

lemma parse_join_slash:
  "r \<noteq> [] \<Longrightarrow> list_all valid_component r \<Longrightarrow> parse_path (join_slash r) = r"
  proof -
  assume r: "r \<noteq> []" and v: "list_all valid_component r"
  have s: "split_on CHR ''/'' (join_slash r) = r"
    using r v by (intro split_join_slash) (auto simp: list_all_iff valid_component_def)
  have "filter (\<lambda>c. c \<noteq> [] \<and> c \<noteq> ''.'') r = r"
    using v by (induction r) (auto simp: valid_component_def)
  then show ?thesis by (simp add: parse_path_def s)
qed

lemma join_slash_hd:
  assumes "r \<noteq> []" "list_all valid_component r"
  shows "join_slash r \<noteq> [] \<and> hd (join_slash r) \<noteq> CHR ''/''"
proof -
  obtain c cs where r: "r = c # cs" using assms(1) by (cases r) auto
  then have "valid_component c" using assms(2) by simp
  then obtain x xs where c: "c = x # xs" and x: "x \<noteq> CHR ''/''"
    by (cases c) (auto simp: valid_component_def)
  have "join_slash r = x # (case cs of [] \<Rightarrow> xs | _ \<Rightarrow> xs @ CHR ''/'' # join_slash cs)"
    unfolding r c by (cases cs) simp_all
  then show ?thesis using x by simp
qed

lemma path_join_join_slash:
  "r \<noteq> [] \<Longrightarrow> list_all valid_component r \<Longrightarrow> path_join dst (join_slash r) = dst @ r"
proof -
  assume r: "r \<noteq> []" "list_all valid_component r"
  have "\<not> (join_slash r = [] \<or> hd (join_slash r) = CHR ''/'')"
    using join_slash_hd[OF r] by blast
  then have "path_join dst (join_slash r) = dst @ parse_path (join_slash r)"
    unfolding path_join_def by auto
  then show ?thesis by (simp only: parse_join_slash[OF r])
qed

lemma join_slash_inj:
  assumes "r \<noteq> []" "r' \<noteq> []" "list_all valid_component r" "list_all valid_component r'"
    "join_slash r = join_slash r'"
  shows "r = r'"
proof -
  have "r = parse_path (join_slash r)" using parse_join_slash[OF assms(1,3)] by (rule sym)
  also have "\<dots> = parse_path (join_slash r')" by (simp only: assms(5))
  also have "\<dots> = r'" by (rule parse_join_slash[OF assms(2,4)])
  finally show ?thesis .
qed

lemma upload_file_ok:
  assumes "no_faults W" "map_of (files W) p = Some c"
  shows "\<exists>u. upload_file E p n W =
     (Inr u, W\<lparr>faults := tl (faults W), blobs := AList.update n c (blobs W)\<rparr>)"
  using assms
  by (simp add: upload_file_def try_except_def io_bind_def read_file_def blob_upload_ok
      io_return_def)

lemma upload_files_ok:
  assumes "no_faults W" "\<forall>p \<in> set F. map_of (files W) p \<noteq> None"
  shows "\<exists>W'. upload_files E src pre F W = (Inr (), W') \<and> no_faults W'
     \<and> files W' = files W \<and> dirs W' = dirs W
     \<and> fst ` set (blobs W') = fst ` set (blobs W) \<union> (\<lambda>p. pre @ str_relative (drop (length src) p)) ` set F
     \<and> (\<forall>n. n \<notin> (\<lambda>p. pre @ str_relative (drop (length src) p)) ` set F
            \<longrightarrow> map_of (blobs W') n = map_of (blobs W) n)
     \<and> (\<forall>p \<in> set F. \<exists>q \<in> set F.
            pre @ str_relative (drop (length src) q) = pre @ str_relative (drop (length src) p)
            \<and> map_of (blobs W') (pre @ str_relative (drop (length src) p)) = map_of (files W) q)"
  using assms
proof (induction F arbitrary: W)
  case Nil
  then show ?case by (simp add: io_return_def)
next
  case (Cons p F)
  let ?nm = "\<lambda>p. pre @ str_relative (drop (length src) p)"
  obtain c where c: "map_of (files W) p = Some c" using Cons.prems(2) by auto
  define W1 where "W1 = W\<lparr>faults := tl (faults W), blobs := AList.update (?nm p) c (blobs W)\<rparr>"
  obtain u where up: "upload_file E p (?nm p) W = (Inr u, W1)"
    using upload_file_ok[OF Cons.prems(1) c, of E "?nm p"] unfolding W1_def by (elim exE)
  have nf1: "no_faults W1" using Cons.prems(1) by (simp add: W1_def)
  have f1: "files W1 = files W" "dirs W1 = dirs W" by (simp_all add: W1_def)
  have pre1: "\<forall>q \<in> set F. map_of (files W1) q \<noteq> None" using Cons.prems(2) f1 by simp
  from Cons.IH[OF nf1 pre1]
  obtain W' where W': "upload_files E src pre F W1 = (Inr (), W')" "no_faults W'"
     "files W' = files W1" "dirs W' = dirs W1"
     "fst ` set (blobs W') = fst ` set (blobs W1) \<union> ?nm ` set F"
     "\<forall>n. n \<notin> ?nm ` set F \<longrightarrow> map_of (blobs W') n = map_of (blobs W1) n"
     "\<forall>q \<in> set F. \<exists>q' \<in> set F. ?nm q' = ?nm q \<and> map_of (blobs W') (?nm q) = map_of (files W1) q'"
    by (elim exE conjE)
  have run: "upload_files E src pre (p # F) W = (Inr (), W')"
    using up W'(1) by (simp add: Let_def io_bind_def)
  have keys1: "fst ` set (blobs W1) = insert (?nm p) (fst ` set (blobs W))"
    by (simp add: W1_def dom_update)
  have m1: "map_of (blobs W1) = (map_of (blobs W))(?nm p \<mapsto> c)"
    by (simp add: W1_def update_conv')
  have a: "fst ` set (blobs W') = fst ` set (blobs W) \<union> ?nm ` set (p # F)"
    using W'(5) keys1 by auto
  have b: "\<forall>n. n \<notin> ?nm ` set (p # F) \<longrightarrow> map_of (blobs W') n = map_of (blobs W) n"
    using W'(6) m1 by auto
  have d: "\<forall>q \<in> set (p # F). \<exists>q' \<in> set (p # F). ?nm q' = ?nm q
              \<and> map_of (blobs W') (?nm q) = map_of (files W) q'"
  proof
    fix q assume q: "q \<in> set (p # F)"
    show "\<exists>q' \<in> set (p # F). ?nm q' = ?nm q \<and> map_of (blobs W') (?nm q) = map_of (files W) q'"
    proof (cases "?nm q \<in> ?nm ` set F")
      case True
      then obtain q0 where q0: "q0 \<in> set F" "?nm q0 = ?nm q" by auto
      from W'(7) q0(1) obtain q' where "q' \<in> set F" "?nm q' = ?nm q0"
        "map_of (blobs W') (?nm q0) = map_of (files W1) q'" by blast
      then show ?thesis using q0(2) f1 by auto
    next
      case False
      then have qp: "q = p" using q by auto
      have "map_of (blobs W') (?nm p) = map_of (blobs W1) (?nm p)" using W'(6) False qp by simp
      then show ?thesis using m1 c qp by auto
    qed
  qed
  show ?case using run W'(2,3,4) f1 a b d by (intro exI[of _ W']) simp
qed

lemma rglob_rel:
  assumes "p \<in> set (rglob_files w src)"
  shows "p = src @ relative_to src p" "relative_to src p \<noteq> []" "p \<in> fst ` set (files w)"
proof -
  from assms have sp: "strict_prefix src p" and pf: "p \<in> set (map fst (files w))"
    by (simp_all add: rglob_files_def)
  from sp obtain r where r: "p = src @ r" "r \<noteq> []" by (auto simp: strict_prefix_def prefix_def)
  then show "p = src @ relative_to src p" "relative_to src p \<noteq> []"
    by (simp_all add: relative_to_def)
  show "p \<in> fst ` set (files w)" using pf by simp
qed

lemma rglob_valid:
  "proper_names w src \<Longrightarrow> p \<in> set (rglob_files w src) \<Longrightarrow>
   list_all valid_component (relative_to src p)"
  by (simp add: proper_names_def list_all_iff)

lemma target_not_below:
  assumes "proper_tree w src" "p \<in> set (rglob_files w src)" "q \<in> set (rglob_files w src)"
  shows "\<not> strict_prefix (target_path src dst p) (target_path src dst q)"
proof
  assume "strict_prefix (target_path src dst p) (target_path src dst q)"
  then have "strict_prefix (relative_to src p) (relative_to src q)"
    by (simp add: target_path_def strict_prefix_def)
  then have "strict_prefix (src @ relative_to src p) (src @ relative_to src q)"
    by (simp add: strict_prefix_def)
  then have "strict_prefix p q" using rglob_rel(1)[OF assms(2)] rglob_rel(1)[OF assms(3)] by simp
  then show False using assms by (simp add: proper_tree_def list_all_iff)
qed

lemma old_file_apart:
  assumes "fresh_dir w dst" "f \<in> fst ` set (files w)"
  shows "\<not> prefix f (target_path src dst p)" "\<not> prefix (target_path src dst p) f"
proof -
  from assms have a: "\<not> prefix dst f" "\<not> prefix f dst"
    by (auto simp: fresh_dir_def list_all_iff)
  show "\<not> prefix f (target_path src dst p)"
  proof
    assume "prefix f (target_path src dst p)"
    then have "prefix f dst \<or> (\<exists>us. f = dst @ us \<and> prefix us (relative_to src p))"
      by (simp add: target_path_def prefix_append)
    then show False using a by auto
  qed
  show "\<not> prefix (target_path src dst p) f"
  proof
    assume "prefix (target_path src dst p) f"
    then have "prefix dst f" unfolding target_path_def by (rule append_prefixD)
    then show False using a by simp
  qed
qed

lemma target_below_dst:
  "p \<in> set (rglob_files w src) \<Longrightarrow> strict_prefix dst (target_path src dst p)"
  using rglob_rel(2)[of p w src] by (simp add: target_path_def strict_prefix_def)

lemma strict_prefix_butlast:
  assumes "prefix q (butlast t)" "t \<noteq> []"
  shows "strict_prefix q t"
proof -
  have t: "t = butlast t @ [last t]" using assms(2) by simp
  from assms(1) obtain r where "butlast t = q @ r" by (auto simp: prefix_def)
  then have "t = q @ (r @ [last t])" using t by (metis append_assoc)
  then show ?thesis by (auto simp: strict_prefix_def prefix_def)
qed

lemma is_file_iff: "is_file W q \<longleftrightarrow> q \<in> fst ` set (files W)"
  by (simp add: is_file_def map_of_eq_None_iff)

lemma writable_cong: "files A = files B \<Longrightarrow> dirs A = dirs B \<Longrightarrow> writable A t = writable B t"
  by (simp add: writable_def is_dir_def is_file_def)

lemma download_other:
  "\<exists>b W'. download_file E n s W = (Inr b, W')
     \<and> (no_faults W \<longrightarrow> no_faults W')
     \<and> blobs W' = blobs W
     \<and> (\<forall>q. q \<noteq> s \<longrightarrow> map_of (files W') q = map_of (files W) q)
     \<and> fst ` set (files W') \<subseteq> insert s (fst ` set (files W))
     \<and> set (dirs W') \<subseteq> set (dirs W) \<union> set (prefixes (butlast s))"
  by (auto simp: download_file_def try_except_def io_bind_def io_return_def logger_def
      blob_exists_def gcs_call_def mkdir_parents_def blob_download_to_filename_def
      blob_download_def write_file_def update_conv' dom_update
      split: sum.splits prod.splits if_splits option.splits)

lemma download_pushed_ok:
  assumes pt: "proper_tree w src" and fd: "fresh_dir w dst" and ok: "pull_inv w src dst S W" and ap: "apart w src dst S"
    and nf: "no_faults W" and p: "p \<in> set (rglob_files w src)"
    and b: "map_of (blobs W) n = Some c"
  shows "\<exists>W'. download_file E n (target_path src dst p) W = (Inr True, W') \<and> no_faults W'
     \<and> blobs W' = blobs W
     \<and> files W' = AList.update (target_path src dst p) c (files W)
     \<and> pull_inv w src dst S W'"
proof -
  let ?t = "target_path src dst p"
  let ?F = "rglob_files w src"
  have tne: "?t \<noteq> []" using target_below_dst[OF p, of dst] by (auto simp: strict_prefix_def)
  have file_cases: "f \<in> fst ` set (files w) \<or> f \<in> target_path src dst ` set ?F \<or> f \<in> S"
    if "f \<in> fst ` set (files W)" for f
    using ok that unfolding pull_inv_def by blast
  have dir_cases: "d \<in> set (dirs w) \<or> (\<exists>q \<in> set ?F. strict_prefix d (target_path src dst q))
      \<or> (\<exists>s \<in> S. strict_prefix d s)"
    if "d \<in> set (dirs W)" for d
    using ok that unfolding pull_inv_def by blast
  have S_apart: "\<not> prefix s ?t \<and> \<not> prefix ?t s" if "s \<in> S" for s
    using ap that p unfolding apart_def by blast
  have no_file_above: "q \<notin> fst ` set (files W)" if "strict_prefix q ?t \<or> strict_prefix ?t q" for q
  proof
    assume "q \<in> fst ` set (files W)"
    from file_cases[OF this] show False
    proof (elim disjE)
      assume "q \<in> fst ` set (files w)"
      from old_file_apart[OF fd this, of src p] that show False
        by (auto simp: strict_prefix_def)
    next
      assume "q \<in> target_path src dst ` set ?F"
      then obtain p' where "p' \<in> set ?F" "q = target_path src dst p'" by auto
      then show False using that target_not_below[OF pt p, of p' dst]
          target_not_below[OF pt _ p, of p' dst] by auto
    next
      assume "q \<in> S"
      from S_apart[OF this] that show False by (auto simp: strict_prefix_def)
    qed
  qed
  have t_not_dir: "?t \<notin> set (dirs W)"
  proof
    assume "?t \<in> set (dirs W)"
    from dir_cases[OF this] show False
    proof (elim disjE)
      assume "?t \<in> set (dirs w)"
      then show False using fd target_below_dst[OF p, of dst]
        by (auto simp: fresh_dir_def list_all_iff)
    next
      assume "\<exists>q \<in> set ?F. strict_prefix ?t (target_path src dst q)"
      then show False using target_not_below[OF pt p, of _ dst] by auto
    next
      assume "\<exists>s \<in> S. strict_prefix ?t s"
      then show False using S_apart by (auto simp: strict_prefix_def)
    qed
  qed
  define W0 where "W0 = W\<lparr>faults := tl (faults W)\<rparr>"
  define W1 where "W1 = W0\<lparr>dirs := List.union (dirs W0) (prefixes (butlast ?t))\<rparr>"
  define W2 where "W2 = W1\<lparr>faults := tl (faults W1)\<rparr>"
  define W3 where "W3 = W2\<lparr>files := AList.update ?t c (files W2)\<rparr>"
  have ex: "blob_exists n W = (Inr True, W0)"
    using blob_exists_ok[OF nf, of n] b by (simp add: W0_def)
  have nomk: "\<not> list_ex (is_file W0) (prefixes (butlast ?t))"
  proof
    assume "list_ex (is_file W0) (prefixes (butlast ?t))"
    then obtain q where q: "prefix q (butlast ?t)" "is_file W0 q"
      by (auto simp: list_ex_iff in_set_prefixes)
    then have "strict_prefix q ?t" using strict_prefix_butlast tne by blast
    moreover have "q \<in> fst ` set (files W)" using q(2) by (simp add: is_file_iff W0_def)
    ultimately show False using no_file_above by blast
  qed
  have mk: "mkdir_parents (butlast ?t) W0 = (Inr (), W1)"
    using nomk by (simp add: mkdir_parents_def W1_def)
  have files1: "files W1 = files W" and dirs1: "set (dirs W1) = set (dirs W) \<union> set (prefixes (butlast ?t))"
    by (simp_all add: W1_def W0_def)
  have wr1: "writable W1 ?t"
  proof -
    have "?t \<notin> set (prefixes (butlast ?t))"
    proof
      assume "?t \<in> set (prefixes (butlast ?t))"
      then have "prefix ?t (butlast ?t)" by (simp add: in_set_prefixes)
      then have "length ?t \<le> length (butlast ?t)" by (rule prefix_length_le)
      moreover have "length (butlast ?t) < length ?t"
        using tne by (cases ?t rule: rev_cases) simp_all
      ultimately show False by linarith
    qed
    then have a: "?t \<notin> set (dirs W1)" using t_not_dir dirs1 by simp
    have b': "\<not> list_ex (strict_prefix ?t) (map fst (files W1))"
      using no_file_above files1 by (auto simp: list_ex_iff)
    have c': "butlast ?t \<in> set (dirs W1)" using dirs1 by (simp add: in_set_prefixes)
    have d': "\<not> is_file W1 (butlast ?t)"
    proof -
      have "butlast ?t \<notin> fst ` set (files W)"
        using no_file_above[of "butlast ?t"] strict_prefix_butlast[of "butlast ?t" ?t] tne by simp
      then show ?thesis using files1 by (simp add: is_file_iff)
    qed
    show ?thesis using tne a b' c' d' by (simp add: writable_def is_dir_def)
  qed
  have nf1: "no_faults W1" using nf by (simp add: W1_def W0_def)
  have b1: "map_of (blobs W1) n = Some c" using b by (simp add: W1_def W0_def)
  have dl: "blob_download n W1 = (Inr c, W2)"
    using blob_download_ok[OF nf1 b1] by (simp add: W2_def)
  have wr2: "writable W2 ?t" using wr1 writable_cong[of W2 W1 ?t] by (simp add: W2_def)
  have wf: "write_file ?t c W2 = (Inr (), W3)" using wr2 by (simp add: write_file_def W3_def)
  have d2f: "blob_download_to_filename n ?t W1 = (Inr (), W3)"
    using wr1 dl wf by (simp add: blob_download_to_filename_def io_bind_def)
  have run: "download_file E n ?t W = (Inr True, W3)"
    using ex mk d2f by (simp add: download_file_def try_except_def io_bind_def io_return_def)
  have nf3: "no_faults W3" using nf1 by (simp add: W3_def W2_def)
  have bl3: "blobs W3 = blobs W" by (simp add: W3_def W2_def W1_def W0_def)
  have fl3: "files W3 = AList.update ?t c (files W)" by (simp add: W3_def W2_def W1_def W0_def)
  have dr3: "set (dirs W3) = set (dirs W) \<union> set (prefixes (butlast ?t))"
    using dirs1 by (simp add: W3_def W2_def)
  have ok3: "pull_inv w src dst S W3"
    unfolding pull_inv_def
  proof (intro conjI ballI)
    fix f assume "f \<in> fst ` set (files W3)"
    then have "f = ?t \<or> f \<in> fst ` set (files W)" by (auto simp: fl3 dom_update)
    then show "f \<in> fst ` set (files w) \<or> f \<in> target_path src dst ` set ?F \<or> f \<in> S"
      using file_cases p by auto
  next
    fix d assume "d \<in> set (dirs W3)"
    then have "d \<in> set (dirs W) \<or> prefix d (butlast ?t)" by (auto simp: dr3 in_set_prefixes)
    then show "d \<in> set (dirs w) \<or> (\<exists>q \<in> set ?F. strict_prefix d (target_path src dst q))
        \<or> (\<exists>s \<in> S. strict_prefix d s)"
      using dir_cases strict_prefix_butlast[of d ?t] tne p by auto
  qed
  show ?thesis using run nf3 bl3 fl3 ok3 by (intro exI[of _ W3]) simp
qed

lemma download_other_inv:
  assumes ok: "pull_inv w src dst S W" and s: "s \<in> S" "s \<noteq> []" and ap: "apart w src dst S"
  shows "\<exists>b W'. download_file E n s W = (Inr b, W')
     \<and> (no_faults W \<longrightarrow> no_faults W') \<and> blobs W' = blobs W
     \<and> pull_inv w src dst S W'
     \<and> (\<forall>t \<in> target_path src dst ` set (rglob_files w src).
           map_of (files W') t = map_of (files W) t)"
proof -
  from download_other[of E n s W]
  obtain b W' where W': "download_file E n s W = (Inr b, W')"
    "no_faults W \<longrightarrow> no_faults W'" "blobs W' = blobs W"
    "\<forall>q. q \<noteq> s \<longrightarrow> map_of (files W') q = map_of (files W) q"
    "fst ` set (files W') \<subseteq> insert s (fst ` set (files W))"
    "set (dirs W') \<subseteq> set (dirs W) \<union> set (prefixes (butlast s))"
    by (elim exE conjE)
  have inv: "pull_inv w src dst S W'"
    unfolding pull_inv_def
  proof (intro conjI ballI)
    fix f assume "f \<in> fst ` set (files W')"
    then have "f = s \<or> f \<in> fst ` set (files W)" using W'(5) by auto
    then show "f \<in> fst ` set (files w) \<or> f \<in> target_path src dst ` set (rglob_files w src) \<or> f \<in> S"
      using ok s(1) unfolding pull_inv_def by blast
  next
    fix d assume "d \<in> set (dirs W')"
    then have "d \<in> set (dirs W) \<or> prefix d (butlast s)"
      using W'(6) by (auto simp: in_set_prefixes)
    then show "d \<in> set (dirs w)
        \<or> (\<exists>p \<in> set (rglob_files w src). strict_prefix d (target_path src dst p))
        \<or> (\<exists>s \<in> S. strict_prefix d s)"
    proof
      assume "d \<in> set (dirs W)"
      then show ?thesis using ok unfolding pull_inv_def by blast
    next
      assume "prefix d (butlast s)"
      then have "strict_prefix d s" using s(2) by (rule strict_prefix_butlast)
      then show ?thesis using s(1) by blast
    qed
  qed
  have tg: "\<forall>t \<in> target_path src dst ` set (rglob_files w src).
           map_of (files W') t = map_of (files W) t"
  proof
    fix t assume "t \<in> target_path src dst ` set (rglob_files w src)"
    then have "t \<noteq> s" using ap s(1) unfolding apart_def by auto
    then show "map_of (files W') t = map_of (files W) t" using W'(4) by simp
  qed
  show ?thesis using W'(1,2,3) inv tg by (intro exI[of _ b] exI[of _ W']) simp
qed

lemma remote_name_inj:
  assumes "proper_names w src" "p \<in> set (rglob_files w src)" "q \<in> set (rglob_files w src)"
    "remote_name k src p = remote_name k src q"
  shows "p = q"
proof -
  have "join_slash (relative_to src p) = join_slash (relative_to src q)"
    using assms(4) rglob_rel(2)[OF assms(2)] rglob_rel(2)[OF assms(3)]
    by (simp add: remote_name_def str_relative_def)
  then have "relative_to src p = relative_to src q"
    using join_slash_inj[OF rglob_rel(2)[OF assms(2)] rglob_rel(2)[OF assms(3)]
        rglob_valid[OF assms(1,2)] rglob_valid[OF assms(1,3)]] by simp
  then show ?thesis using rglob_rel(1)[OF assms(2)] rglob_rel(1)[OF assms(3)] by metis
qed

lemma target_path_inj:
  assumes "p \<in> set (rglob_files w src)" "q \<in> set (rglob_files w src)"
    "target_path src dst p = target_path src dst q"
  shows "p = q"
proof -
  have "relative_to src p = relative_to src q" using assms(3) by (simp add: target_path_def)
  then show ?thesis using rglob_rel(1)[OF assms(1)] rglob_rel(1)[OF assms(2)] by metis
qed

lemma local_of_remote:
  assumes "proper_names w src" "p \<in> set (rglob_files w src)"
  shows "path_join dst (drop (length (files_prefix k)) (remote_name k src p)) = target_path src dst p"
  using path_join_join_slash[OF rglob_rel(2)[OF assms(2)] rglob_valid[OF assms], of dst]
    rglob_rel(2)[OF assms(2)]
  by (simp add: remote_name_def str_relative_def target_path_def)

lemma download_all_ok:
  assumes pn: "proper_names w src" and pt: "proper_tree w src" and fd: "fresh_dir w dst"
    and ap: "apart w src dst S" and ne: "[] \<notin> S"
    and ok: "pull_inv w src dst S W" and nf: "no_faults W"
    and L: "\<forall>n \<in> set L. n \<in> remote_name k src ` set (rglob_files w src) \<or> local_path dst k n \<in> S"
    and B: "\<forall>p \<in> set (rglob_files w src). map_of (blobs W) (remote_name k src p) = map_of (files w) p"
  shows "\<exists>W'. download_files E dst (files_prefix k) L W = (Inr (), W') \<and> no_faults W'
     \<and> blobs W' = blobs W \<and> pull_inv w src dst S W'
     \<and> (\<forall>p \<in> set (rglob_files w src). remote_name k src p \<in> set L \<longrightarrow>
            map_of (files W') (target_path src dst p) = map_of (files w) p)
     \<and> (\<forall>t \<in> target_path src dst ` set (rglob_files w src).
            t \<notin> target_path src dst ` {p \<in> set (rglob_files w src). remote_name k src p \<in> set L}
            \<longrightarrow> map_of (files W') t = map_of (files W) t)"
  using ok nf L B
proof (induction L arbitrary: W)
  case Nil
  then show ?case by (simp add: io_return_def)
next
  case (Cons n L)
  let ?F = "rglob_files w src"
  let ?nm = "remote_name k src"
  let ?tg = "target_path src dst"
  have L': "\<forall>n \<in> set L. n \<in> ?nm ` set ?F \<or> local_path dst k n \<in> S" using Cons.prems(3) by simp
  show ?case
  proof (cases "n \<in> ?nm ` set ?F")
    case True
    then obtain p where p: "p \<in> set ?F" "n = ?nm p" by auto
    obtain c where c: "map_of (files w) p = Some c"
      using rglob_rel(3)[OF p(1)] by (metis map_of_eq_None_iff not_Some_eq)
    have bn: "map_of (blobs W) n = Some c" using Cons.prems(4) p c by simp
    from download_pushed_ok[OF pt fd Cons.prems(1) ap Cons.prems(2) p(1) bn, of E]
    obtain W1 where W1: "download_file E n (?tg p) W = (Inr True, W1)" "no_faults W1"
      "blobs W1 = blobs W" "files W1 = AList.update (?tg p) c (files W)" "pull_inv w src dst S W1"
      by (elim exE conjE)
    have B': "\<forall>p \<in> set ?F. map_of (blobs W1) (?nm p) = map_of (files w) p"
      using Cons.prems(4) W1(3) by simp
    from Cons.IH[OF W1(5,2) L' B']
    obtain W' where W': "download_files E dst (files_prefix k) L W1 = (Inr (), W')" "no_faults W'"
      "blobs W' = blobs W1" "pull_inv w src dst S W'"
      "\<forall>q \<in> set ?F. ?nm q \<in> set L \<longrightarrow> map_of (files W') (?tg q) = map_of (files w) q"
      "\<forall>t \<in> ?tg ` set ?F. t \<notin> ?tg ` {q \<in> set ?F. ?nm q \<in> set L}
          \<longrightarrow> map_of (files W') t = map_of (files W1) t"
      by (elim exE conjE)
    have run: "download_files E dst (files_prefix k) (n # L) W = (Inr (), W')"
      using W1(1) W'(1) local_of_remote[OF pn p(1), of dst k] p(2)
      by (simp add: Let_def io_bind_def)
    have a: "\<forall>q \<in> set ?F. ?nm q \<in> set (n # L) \<longrightarrow> map_of (files W') (?tg q) = map_of (files w) q"
    proof (intro ballI impI)
      fix q assume q: "q \<in> set ?F" "?nm q \<in> set (n # L)"
      show "map_of (files W') (?tg q) = map_of (files w) q"
      proof (cases "?nm q \<in> set L")
        case True
        then show ?thesis using W'(5) q(1) by simp
      next
        case False
        then have "?nm q = ?nm p" using q(2) p(2) by simp
        then have qp: "q = p" using remote_name_inj[OF pn q(1) p(1)] by simp
        have "?tg p \<notin> ?tg ` {q \<in> set ?F. ?nm q \<in> set L}"
        proof
          assume "?tg p \<in> ?tg ` {q \<in> set ?F. ?nm q \<in> set L}"
          then obtain q' where q': "q' \<in> set ?F" "?nm q' \<in> set L" "?tg p = ?tg q'" by auto
          then have "p = q'" using target_path_inj[OF p(1) q'(1)] by simp
          then show False using q'(2) False qp by simp
        qed
        moreover have "?tg p \<in> ?tg ` set ?F" using p(1) by simp
        ultimately have "map_of (files W') (?tg p) = map_of (files W1) (?tg p)" using W'(6) by blast
        then show ?thesis using W1(4) c qp by (simp add: update_conv')
      qed
    qed
    have b: "\<forall>t \<in> ?tg ` set ?F. t \<notin> ?tg ` {q \<in> set ?F. ?nm q \<in> set (n # L)}
                \<longrightarrow> map_of (files W') t = map_of (files W) t"
    proof (intro ballI impI)
      fix t assume tt: "t \<in> ?tg ` set ?F"
        and t: "t \<notin> ?tg ` {q \<in> set ?F. ?nm q \<in> set (n # L)}"
      then have t1: "t \<notin> ?tg ` {q \<in> set ?F. ?nm q \<in> set L}" by auto
      have t2: "t \<noteq> ?tg p" using t p by auto
      have "map_of (files W') t = map_of (files W1) t" using W'(6) tt t1 by blast
      then show "map_of (files W') t = map_of (files W) t"
        using W1(4) t2 by (simp add: update_conv')
    qed
    show ?thesis using run W'(2,3,4) W1(3) a b by (intro exI[of _ W']) simp
  next
    case False
    define s where "s = local_path dst k n"
    have sS: "s \<in> S" using Cons.prems(3) False by (simp add: s_def)
    have sne: "s \<noteq> []" using sS ne by auto
    from download_other_inv[OF Cons.prems(1) sS sne ap, of E n]
    obtain b0 W1 where W1: "download_file E n s W = (Inr b0, W1)" "no_faults W \<longrightarrow> no_faults W1"
      "blobs W1 = blobs W" "pull_inv w src dst S W1"
      "\<forall>t \<in> ?tg ` set ?F. map_of (files W1) t = map_of (files W) t"
      by (elim exE conjE)
    have nf1: "no_faults W1" using W1(2) Cons.prems(2) by simp
    have B': "\<forall>p \<in> set ?F. map_of (blobs W1) (?nm p) = map_of (files w) p"
      using Cons.prems(4) W1(3) by simp
    from Cons.IH[OF W1(4) nf1 L' B']
    obtain W' where W': "download_files E dst (files_prefix k) L W1 = (Inr (), W')" "no_faults W'"
      "blobs W' = blobs W1" "pull_inv w src dst S W'"
      "\<forall>q \<in> set ?F. ?nm q \<in> set L \<longrightarrow> map_of (files W') (?tg q) = map_of (files w) q"
      "\<forall>t \<in> ?tg ` set ?F. t \<notin> ?tg ` {q \<in> set ?F. ?nm q \<in> set L}
          \<longrightarrow> map_of (files W') t = map_of (files W1) t"
      by (elim exE conjE)
    have run: "download_files E dst (files_prefix k) (n # L) W = (Inr (), W')"
      using W1(1) W'(1) by (simp add: Let_def io_bind_def s_def local_path_def)
    have same: "{q \<in> set ?F. ?nm q \<in> set (n # L)} = {q \<in> set ?F. ?nm q \<in> set L}"
      using False by auto
    have a: "\<forall>q \<in> set ?F. ?nm q \<in> set (n # L) \<longrightarrow> map_of (files W') (?tg q) = map_of (files w) q"
      using W'(5) False by auto
    have b: "\<forall>t \<in> ?tg ` set ?F. t \<notin> ?tg ` {q \<in> set ?F. ?nm q \<in> set (n # L)}
                \<longrightarrow> map_of (files W') t = map_of (files W) t"
      unfolding same using W'(6) W1(5) by simp
    show ?thesis using run W'(2,3,4) W1(3) a b by (intro exI[of _ W']) simp
  qed
qed

lemma push_then_pull_files:
  assumes nf: "no_faults w" and pn: "proper_names w src" and pt: "proper_tree w src"
    and fd: "fresh_dir w dst" and nc: "no_conflicting_names w src dst k"
    and p: "p \<in> set (rglob_files w src)"
  shows "map_of (files (snd (sync_gcs_to_workspace E dst k (snd (sync_workspace_to_gcs E src k w)))))
           (dst @ relative_to src p) = map_of (files w) p"
proof -
  let ?F = "rglob_files w src"
  let ?pre = "files_prefix k"
  let ?nm = "remote_name k src"
  let ?tg = "target_path src dst"
  define S where "S = local_path dst k `
      {n \<in> fst ` set (blobs w). prefix ?pre n \<and> n \<notin> ?nm ` set ?F}"
  have ap: "apart w src dst S"
    unfolding apart_def S_def using nc
    by (auto simp: no_conflicting_names_def list_all_iff)
  have ne: "[] \<notin> S"
  proof
    assume "[] \<in> S"
    then have "\<not> prefix [] (?tg p)" using ap p unfolding apart_def by blast
    then show False by simp
  qed
  have nm: "?nm = (\<lambda>p. ?pre @ str_relative (drop (length src) p))"
    by (simp add: remote_name_def relative_to_def fun_eq_iff)
  have present: "\<forall>p \<in> set ?F. map_of (files w) p \<noteq> None"
    using rglob_rel(3) by (simp add: map_of_eq_None_iff)
  from upload_files_ok[OF nf present, of E src ?pre]
  obtain W1 where W1: "upload_files E src ?pre ?F w = (Inr (), W1)" "no_faults W1"
     "files W1 = files w" "dirs W1 = dirs w"
     "fst ` set (blobs W1) = fst ` set (blobs w) \<union> ?nm ` set ?F"
     "\<forall>p \<in> set ?F. \<exists>q \<in> set ?F. ?nm q = ?nm p \<and> map_of (blobs W1) (?nm p) = map_of (files w) q"
    unfolding nm by (elim exE conjE)
  have ex: "path_exists w src"
    using p by (auto simp: path_exists_def is_dir_def rglob_files_def list_ex_iff)
  have push: "sync_workspace_to_gcs E src k w = (Inr (), W1)"
    using ex W1(1) by (simp add: sync_workspace_to_gcs_def try_except_def Let_def files_prefix_def)
  have B: "\<forall>p \<in> set ?F. map_of (blobs W1) (?nm p) = map_of (files w) p"
  proof
    fix p assume p: "p \<in> set ?F"
    then obtain q where q: "q \<in> set ?F" "?nm q = ?nm p"
      "map_of (blobs W1) (?nm p) = map_of (files w) q" using W1(6) by blast
    then have "q = p" using remote_name_inj[OF pn q(1) p] by simp
    then show "map_of (blobs W1) (?nm p) = map_of (files w) p" using q(3) by simp
  qed
  define L where "L = filter (prefix ?pre) (map fst (blobs W1))"
  define W1' where "W1' = W1\<lparr>faults := tl (faults W1)\<rparr>"
  have lf: "list_files E ?pre W1 = (Inr L, W1')"
    by (simp add: list_files_def try_except_def io_bind_def gcs_call_ok[OF W1(2)] L_def W1'_def)
  have Lc: "\<forall>n \<in> set L. n \<in> ?nm ` set ?F \<or> local_path dst k n \<in> S"
  proof
    fix n assume "n \<in> set L"
    then have n: "prefix ?pre n" "n \<in> fst ` set (blobs W1)" by (auto simp: L_def)
    then have "n \<in> fst ` set (blobs w) \<or> n \<in> ?nm ` set ?F" using W1(5) by auto
    then show "n \<in> ?nm ` set ?F \<or> local_path dst k n \<in> S"
      using n(1) unfolding S_def by blast
  qed
  have pL: "?nm p \<in> set L"
    using W1(5) p by (auto simp: L_def remote_name_def)
  have ok1: "pull_inv w src dst S W1'"
    by (simp add: pull_inv_def W1'_def W1(3,4))
  have nf1: "no_faults W1'" using W1(2) by (simp add: W1'_def)
  have B1: "\<forall>p \<in> set ?F. map_of (blobs W1') (?nm p) = map_of (files w) p"
    using B by (simp add: W1'_def)
  from download_all_ok[OF pn pt fd ap ne ok1 nf1 Lc B1, of E]
  obtain W2 where W2: "download_files E dst ?pre L W1' = (Inr (), W2)"
     "\<forall>p \<in> set ?F. ?nm p \<in> set L \<longrightarrow> map_of (files W2) (?tg p) = map_of (files w) p"
    by (elim exE conjE)
  have pull: "sync_gcs_to_workspace E dst k W1 = (Inr (), W2)"
    using lf W2(1)
    by (simp add: sync_gcs_to_workspace_def try_except_def Let_def io_bind_def files_prefix_def)
  have "map_of (files W2) (?tg p) = map_of (files w) p" using W2(2) p pL by blast
  then show ?thesis using push pull by (simp add: target_path_def)
qed




section \<open>The chat history across one webhook run\<close>

lemma framesI:
  "(\<And>W. no_faults W \<Longrightarrow> no_faults (snd (m W))) \<Longrightarrow>
   (\<And>W. map_of (blobs (snd (m W))) hp = map_of (blobs W) hp) \<Longrightarrow> frames hp m"
  by (simp add: frames_def)

lemma frames_return [intro!]: "frames hp (io_return x)"
  by (simp add: frames_def io_return_def)

lemma frames_raise [intro!]: "frames hp (io_raise e)"
  by (simp add: frames_def io_raise_def)

lemma frames_lift [intro!]: "frames hp (io_lift r)"
  by (simp add: frames_def io_lift_def)

lemma frames_logger [intro!]: "frames hp (logger l s)"
  by (simp add: frames_def logger_def)

lemma frames_utcnow [intro!]: "frames hp (utcnow_isoformat E)"
  by (simp add: frames_def utcnow_isoformat_def)

lemma frames_uuid [intro!]: "frames hp (uuid4_str E)"
  by (simp add: frames_def uuid4_str_def)

lemma frames_gcs_call [intro!]: "frames hp gcs_call"
  by (simp add: frames_def gcs_call_def)

lemma frames_bind [intro!]:
  assumes "frames hp m" "\<And>x. frames hp (f x)"
  shows "frames hp (io_bind m f)"
  unfolding frames_def
proof (intro allI)
  fix W
  obtain r W1 where m: "m W = (r, W1)" by (cases "m W")
  have a: "(no_faults W \<longrightarrow> no_faults W1) \<and> map_of (blobs W1) hp = map_of (blobs W) hp"
    using assms(1) m unfolding frames_def by (metis snd_conv)
  show "(no_faults W \<longrightarrow> no_faults (snd (io_bind m f W)))
          \<and> map_of (blobs (snd (io_bind m f W))) hp = map_of (blobs W) hp"
  proof (cases r)
    case (Inl e)
    then show ?thesis using m a by (simp add: io_bind_def)
  next
    case (Inr x)
    have "(no_faults W1 \<longrightarrow> no_faults (snd (f x W1)))
            \<and> map_of (blobs (snd (f x W1))) hp = map_of (blobs W1) hp"
      using assms(2)[of x] unfolding frames_def by blast
    then show ?thesis using m a Inr by (simp add: io_bind_def)
  qed
qed

lemma frames_try [intro!]:
  assumes "frames hp m" "\<And>e. frames hp (h e)"
  shows "frames hp (try_except m h)"
  unfolding frames_def
proof (intro allI)
  fix W
  obtain r W1 where m: "m W = (r, W1)" by (cases "m W")
  have a: "(no_faults W \<longrightarrow> no_faults W1) \<and> map_of (blobs W1) hp = map_of (blobs W) hp"
    using assms(1) m unfolding frames_def by (metis snd_conv)
  show "(no_faults W \<longrightarrow> no_faults (snd (try_except m h W)))
          \<and> map_of (blobs (snd (try_except m h W))) hp = map_of (blobs W) hp"
  proof (cases r)
    case (Inr x)
    then show ?thesis using m a by (simp add: try_except_def)
  next
    case (Inl e)
    have "(no_faults W1 \<longrightarrow> no_faults (snd (h e W1)))
            \<and> map_of (blobs (snd (h e W1))) hp = map_of (blobs W1) hp"
      using assms(2)[of e] unfolding frames_def by blast
    then show ?thesis using m a Inl by (simp add: try_except_def)
  qed
qed

lemma frames_if [intro!]: "frames hp a \<Longrightarrow> frames hp b \<Longrightarrow> frames hp (if c then a else b)"
  by simp

lemma frames_world_if:
  "frames hp a \<Longrightarrow> frames hp b \<Longrightarrow> frames hp (\<lambda>W. if P W then a W else b W)"
  by (simp add: frames_def)

lemma frames_local:
  "(\<And>W. blobs (snd (m W)) = blobs W \<and> faults (snd (m W)) = faults W) \<Longrightarrow> frames hp m"
  by (simp add: frames_def)

lemma frames_blob_exists [intro!]: "frames hp (blob_exists n)"
  unfolding blob_exists_def by (intro frames_bind frames_gcs_call frames_local) simp

lemma frames_blob_download [intro!]: "frames hp (blob_download n)"
  unfolding blob_download_def by (intro frames_bind frames_gcs_call frames_local) simp

lemma frames_blob_upload: "n \<noteq> hp \<Longrightarrow> frames hp (blob_upload n c)"
  unfolding blob_upload_def
  by (intro frames_bind frames_gcs_call framesI) (simp_all add: update_conv')

lemma frames_mkdir [intro!]: "frames hp (mkdir_parents p)"
  by (rule frames_local) (simp add: mkdir_parents_def)

lemma frames_write_file [intro!]: "frames hp (write_file p c)"
  by (rule frames_local) (simp add: write_file_def)

lemma frames_read_file [intro!]: "frames hp (read_file p)"
  by (rule frames_local) (simp add: read_file_def)

lemma frames_copy2 [intro!]: "frames hp (copy2 a b)"
  by (rule frames_local)
     (simp add: copy2_def Let_def io_bind_def read_file_def write_file_def
       split: option.splits)

lemma frames_get_session [intro!]: "frames hp (get_session E k)"
  unfolding get_session_def Let_def by (intro frames_try frames_bind frames_if) auto

lemma frames_create_or_update_session:
  "frames (history_path k) (create_or_update_session E k u md)"
proof -
  have ne: "get_session_path k @ ''/session.json'' \<noteq> history_path k"
    by (simp add: history_path_def)
  show ?thesis
    unfolding create_or_update_session_def Let_def
    by (cases md) (auto intro!: frames_blob_upload[OF ne])
qed

lemma frames_parse_chat_lines [intro!]: "frames hp (parse_chat_lines E ls acc)"
  by (induction ls arbitrary: acc) (auto split: sum.splits)

lemma frames_get_chat_history [intro!]: "frames hp (get_chat_history E k limit)"
  unfolding get_chat_history_def Let_def by (cases limit) auto

lemma frames_list_files [intro!]: "frames hp (list_files E pre)"
  unfolding list_files_def
  by (intro frames_try frames_bind frames_gcs_call frames_local frames_logger frames_return) simp

lemma frames_blob_download_to_filename [intro!]: "frames hp (blob_download_to_filename n p)"
  unfolding blob_download_to_filename_def
  by (intro frames_world_if frames_local[where m = "\<lambda>w. (Inl OSError, w)"]) auto

lemma frames_download_file [intro!]: "frames hp (download_file E n p)"
  unfolding download_file_def by auto

lemma frames_download_files [intro!]: "frames hp (download_files E ws pre L)"
  by (induction L) (auto simp: Let_def)

lemma frames_sync_gcs_to_workspace [intro!]: "frames hp (sync_gcs_to_workspace E ws k)"
  unfolding sync_gcs_to_workspace_def Let_def by auto

lemma frames_copy_files [intro!]: "frames hp (copy_files src dst fs)"
  by (induction fs) (auto simp: Let_def)

lemma frames_upload_file: "n \<noteq> hp \<Longrightarrow> frames hp (upload_file E p n)"
  unfolding upload_file_def by (auto intro!: frames_blob_upload)

lemma files_name_ne: "(get_session_path k @ ''/files/'') @ x \<noteq> history_path k"
  by (simp add: history_path_def)

lemma frames_upload_files:
  "frames (history_path k) (upload_files E ws (get_session_path k @ ''/files/'') fs)"
proof (induction fs)
  case Nil
  then show ?case by auto
next
  case (Cons a fs)
  have "frames (history_path k)
          (upload_file E a ((get_session_path k @ ''/files/'') @ str_relative (drop (length ws) a)))"
    by (rule frames_upload_file[OF files_name_ne])
  then show ?case using Cons unfolding upload_files.simps Let_def
    by (intro frames_bind) simp_all
qed

lemma frames_sync_workspace_to_gcs:
  "frames (history_path k) (sync_workspace_to_gcs E ws k)"
  unfolding sync_workspace_to_gcs_def Let_def
  by (intro frames_try frames_logger frames_world_if frames_local[where m = "\<lambda>w. (Inr (), w)"]
      frames_world_if) (simp, simp add: frames_def frames_upload_files[unfolded frames_def])

lemma frames_save_agent_action:
  "frames (history_path k) (save_agent_action E k t d md)"
proof -
  have ne: "get_session_path k @ ''/agent_actions.jsonl'' \<noteq> history_path k"
    by (simp add: history_path_def)
  show ?thesis
    unfolding save_agent_action_def save_agent_action_try_def Let_def
    by (auto intro!: frames_blob_upload[OF ne])
qed

lemma frames_agent [intro!]: "frames hp (agent_process_direct G c k)"
  by (rule frames_local) (simp add: agent_process_direct_def split: sum.splits prod.splits)

lemma post_bind:
  assumes "post P m Q" "\<And>x. post (Q x) (f x) R"
  shows "post P (io_bind m f) R"
  unfolding post_def
proof (intro allI impI)
  fix W y W' assume P: "P W" and r: "io_bind m f W = (Inr y, W')"
  from r obtain x W1 where "m W = (Inr x, W1)" "f x W1 = (Inr y, W')" by (rule io_bind_InrE)
  then show "R y W'" using assms P unfolding post_def by blast
qed

lemma post_frames: "frames hp m \<Longrightarrow> post (hist hp C) m (\<lambda>_. hist hp C)"
  unfolding post_def frames_def hist_def blob_text_def by (metis snd_conv)

lemma post_bind_frames:
  "frames hp m \<Longrightarrow> (\<And>x. post (hist hp C) (f x) R) \<Longrightarrow> post (hist hp C) (io_bind m f) R"
  by (rule post_bind[OF post_frames])

lemma post_return: "(\<And>W. P W \<Longrightarrow> Q x W) \<Longrightarrow> post P (io_return x) Q"
  by (simp add: post_def io_return_def)

lemma post_weaken: "post P m Q \<Longrightarrow> (\<And>x W. Q x W \<Longrightarrow> Q' x W) \<Longrightarrow> post P m Q'"
  unfolding post_def by blast

lemma hist_mono: "C \<subseteq> C' \<Longrightarrow> hist hp C W \<Longrightarrow> hist hp C' W"
  by (auto simp: hist_def)

lemma post_save:
  assumes "dumps_total E"
  shows "post (hist (history_path k) C) (save_chat_message E k mid role content md)
     (\<lambda>_. hist (history_path k)
        {c @ dumped E (message_doc mid role content t md) @ [newline] | c t. c \<in> C})"
  unfolding post_def
proof (intro allI impI)
  fix W x W' assume h: "hist (history_path k) C W"
    and r: "save_chat_message E k mid role content md W = (Inr x, W')"
  let ?d = "message_doc mid role content (isoformat E (clock W)) md"
  obtain s where s: "json_dumps E ?d = Inr s" using assms unfolding dumps_total_def by blast
  have nf: "no_faults W" using h by (simp add: hist_def)
  from save_chat_message_ok[OF nf s, of k] r
  have W': "no_faults W'"
    "map_of (blobs W') = (map_of (blobs W))(history_path k \<mapsto> blob_text W (history_path k) @ s @ [newline])"
    by auto
  have "dumped E ?d = s" using s by (simp add: dumped_def)
  then have "blob_text W' (history_path k) = blob_text W (history_path k) @ dumped E ?d @ [newline]"
    using W'(2) by (simp add: blob_text_def)
  then show "hist (history_path k)
        {c @ dumped E (message_doc mid role content t md) @ [newline] | c t. c \<in> C} W'"
    using W'(1) h unfolding hist_def by blast
qed

lemma post_user_save:
  assumes "dumps_total E"
  shows "post (hist (history_path k) C) (save_chat_message E k mid ''user'' content md)
           (\<lambda>_. hist (history_path k) (user_lines E content C))"
  by (rule post_weaken[OF post_save[OF assms]])
     (auto simp: hist_def user_lines_def)

lemma post_reply_save:
  assumes "dumps_total E"
  shows "post (hist (history_path k) C)
           (if r \<noteq> []
            then io_bind (uuid4_str E) (\<lambda>rid. save_chat_message E k rid ''assistant'' (JStr r) None)
            else io_return ())
           (\<lambda>_. hist (history_path k) (reply_lines E r C))"
proof (cases "r = []")
  case True
  then show ?thesis by (simp add: post_return reply_lines_def)
next
  case False
  have "post (hist (history_path k) C)
          (io_bind (uuid4_str E) (\<lambda>rid. save_chat_message E k rid ''assistant'' (JStr r) None))
          (\<lambda>_. hist (history_path k) (reply_lines E r C))"
  proof (rule post_bind_frames)
    show "frames (history_path k) (uuid4_str E)" by auto
    fix rid
    show "post (hist (history_path k) C) (save_chat_message E k rid ''assistant'' (JStr r) None)
            (\<lambda>_. hist (history_path k) (reply_lines E r C))"
      by (rule post_weaken[OF post_save[OF assms]])
         (use False in \<open>auto simp: hist_def reply_lines_def\<close>)
  qed
  then show ?thesis using False by simp
qed

lemma frames_pointwise: "(\<And>W. \<exists>m. frames hp m \<and> f W = m W) \<Longrightarrow> frames hp f"
  unfolding frames_def by metis

lemma frames_skip: "frames hp (\<lambda>w. (Inr (), w))"
  by (simp add: frames_def)

lemma frames_copy_in:
  "frames hp (\<lambda>w. if path_exists w sw then copy_files sw aw (rglob_files w sw) w else (Inr (), w))"
proof (rule frames_pointwise)
  fix W
  show "\<exists>m. frames hp m \<and>
          (if path_exists W sw then copy_files sw aw (rglob_files W sw) W else (Inr (), W)) = m W"
  proof (cases "path_exists W sw")
    case True
    then show ?thesis
      by (intro exI[of _ "copy_files sw aw (rglob_files W sw)"]) (simp add: frames_copy_files)
  next
    case False
    then show ?thesis by (intro exI[of _ "\<lambda>w. (Inr (), w)"]) (simp add: frames_skip)
  qed
qed

lemma frames_copy_out: "frames hp (\<lambda>w. copy_files aw sw (rglob_files w aw) w)"
  by (rule frames_pointwise) (metis frames_copy_files)

lemma frames_log_action:
  "frames (history_path k)
     (\<lambda>w. if path_exists w sw
           then if rglob_files w sw \<noteq> []
                then io_bind (save_agent_action E k t (d w) None) (\<lambda>_. io_return ()) w
                else (Inr (), w)
           else (Inr (), w))"
proof (rule frames_pointwise)
  fix W
  have a: "frames (history_path k) (io_bind (save_agent_action E k t (d W) None) (\<lambda>_. io_return ()))"
    by (intro frames_bind frames_save_agent_action frames_return)
  show "\<exists>m. frames (history_path k) m \<and>
          (if path_exists W sw
           then if rglob_files W sw \<noteq> []
                then io_bind (save_agent_action E k t (d W) None) (\<lambda>_. io_return ()) W
                else (Inr (), W)
           else (Inr (), W)) = m W"
  proof (cases "path_exists W sw \<and> rglob_files W sw \<noteq> []")
    case True
    then show ?thesis using a
      by (intro exI[of _ "io_bind (save_agent_action E k t (d W) None) (\<lambda>_. io_return ())"]) simp
  next
    case False
    then show ?thesis by (intro exI[of _ "\<lambda>w. (Inr (), w)"]) (auto simp: frames_skip)
  qed
qed

lemma process_message_history:
  assumes "dumps_total E"
  shows "post (hist (history_path (''telegram:'' @ cid)) C)
           (process_message E G message chat cid uid content)
           (\<lambda>r. hist (history_path (''telegram:'' @ cid)) (reply_lines E r (user_lines E content C)))"
  unfolding process_message_def Let_def
  apply (rule post_bind_frames, rule frames_get_session)
  apply (rule post_bind_frames)
   apply (intro frames_if frames_bind frames_lift frames_return frames_create_or_update_session)
  apply (rule post_bind_frames, rule frames_mkdir)
  apply (rule post_bind_frames, rule frames_sync_gcs_to_workspace)
  apply (rule post_bind_frames, rule frames_get_chat_history)
  apply (rule post_bind_frames, rule frames_copy_in)
  apply (rule post_bind_frames, rule frames_uuid)
  apply (rule post_bind_frames, rule frames_lift)
  apply (rule post_bind[OF post_user_save[OF assms]])
  apply (rule post_bind_frames, rule frames_agent)
  apply (rule post_bind[OF post_reply_save[OF assms]])
  apply (rule post_bind_frames, rule frames_copy_out)
  apply (rule post_bind_frames, rule frames_sync_workspace_to_gcs)
  apply (rule post_bind_frames, rule frames_log_action)
  apply (rule post_return)
  apply assumption
  done



end
